theory Spec2Isabelle
  imports Main "HOL-Library.Word"
begin

section \<open>The deque of \<^verbatim>\<open>custom::deque\<close>: data model\<close>

text \<open>
  The repository holds two variants of the same header: \<^verbatim>\<open>src/deque.h\<close> and
  \<^verbatim>\<open>src/unnamed/part_000\<close>. Constants without a suffix embed the code of
  \<^verbatim>\<open>src/unnamed/part_000\<close>; constants with the suffix \<open>_h\<close> embed the code of
  \<^verbatim>\<open>src/deque.h\<close> where it differs.

  \<^verbatim>\<open>size_t\<close> is a 64-bit word and \<^verbatim>\<open>int\<close> a 32-bit word read in two's complement.
  Mixed arithmetic follows the usual conversions of C++: an \<^verbatim>\<open>int\<close> operand of a
  \<^verbatim>\<open>size_t\<close> operation is sign-extended (\<open>scast\<close>), a \<^verbatim>\<open>size_t\<close> stored in an
  \<^verbatim>\<open>int\<close> is truncated (\<open>ucast\<close>). Undefined behaviour and failed assertions are
  values of the type \<open>error\<close>.
\<close>

type_synonym size_t = "64 word"
type_synonym cint = "32 word"

datatype error =
    AssertFailed      \<comment> \<open>\<^verbatim>\<open>assert\<close> aborts\<close>
  | DivByZero         \<comment> \<open>\<^verbatim>\<open>/\<close> or \<^verbatim>\<open>%\<close> by zero\<close>
  | SignedOverflow    \<comment> \<open>overflow of \<^verbatim>\<open>int\<close> arithmetic\<close>
  | NullDeref         \<comment> \<open>access through a null pointer\<close>
  | WildDeref         \<comment> \<open>access through an uninitialised pointer\<close>
  | OutOfBounds       \<comment> \<open>access outside an allocated array\<close>
  | NoObject          \<comment> \<open>read of a slot that holds no constructed object\<close>

text \<open>
  A \<^verbatim>\<open>T*\<close> of the block array: null, uninitialised (an entry of a fresh
  \<^verbatim>\<open>new T*[n]\<close>), or a block of slots. A slot is \<open>Some v\<close> when it holds a constructed
  object and \<open>None\<close> when it is raw or destroyed memory.
\<close>

datatype 'a ptr = Null | Wild | Block "'a option list"

record 'a deque =
  numCells :: size_t
  numBlocks :: size_t
  numElements :: size_t
  iaFront :: cint
  data :: "'a ptr list option"

text \<open>\<^verbatim>\<open>deque(const A& a = A())\<close>: 16 cells per block, nothing allocated.\<close>

definition deque_new :: "'a deque" where
  "deque_new = \<lparr>numCells = 16, numBlocks = 0, numElements = 0, iaFront = 0, data = None\<rparr>"

subsection \<open>Arithmetic on \<^verbatim>\<open>int\<close>\<close>

definition int_add :: "cint \<Rightarrow> cint \<Rightarrow> error + cint" where
  "int_add a b =
     (if sint a + sint b < - (2 ^ 31) \<or> 2 ^ 31 \<le> sint a + sint b
      then Inl SignedOverflow else Inr (a + b))"

definition int_sub :: "cint \<Rightarrow> cint \<Rightarrow> error + cint" where
  "int_sub a b =
     (if sint a - sint b < - (2 ^ 31) \<or> 2 ^ 31 \<le> sint a - sint b
      then Inl SignedOverflow else Inr (a - b))"

subsection \<open>Index translation, \<^verbatim>\<open>src/unnamed/part_000\<close> lines 121 to 136\<close>

text \<open>\<^verbatim>\<open>return (iaFront + id) % (numCells * numBlocks);\<close>\<close>

definition iaFromID :: "'a deque \<Rightarrow> cint \<Rightarrow> error + cint" where
  "iaFromID s ident =
     (case int_add (iaFront s) ident of
        Inl e \<Rightarrow> Inl e
      | Inr x \<Rightarrow>
          if numCells s * numBlocks s = 0 then Inl DivByZero
          else Inr (ucast ((scast x :: size_t) mod (numCells s * numBlocks s))))"

text \<open>\<^verbatim>\<open>return (iaFromID(id)) / numCells;\<close>\<close>

definition ibFromID :: "'a deque \<Rightarrow> cint \<Rightarrow> error + cint" where
  "ibFromID s ident =
     (case iaFromID s ident of
        Inl e \<Rightarrow> Inl e
      | Inr a \<Rightarrow>
          if numCells s = 0 then Inl DivByZero
          else Inr (ucast ((scast a :: size_t) div numCells s)))"

text \<open>\<^verbatim>\<open>return (iaFromID(id)) % numCells;\<close>\<close>

definition icFromID :: "'a deque \<Rightarrow> cint \<Rightarrow> error + cint" where
  "icFromID s ident =
     (case iaFromID s ident of
        Inl e \<Rightarrow> Inl e
      | Inr a \<Rightarrow>
          if numCells s = 0 then Inl DivByZero
          else Inr (ucast ((scast a :: size_t) mod numCells s)))"

subsection \<open>Index translation, \<^verbatim>\<open>src/deque.h\<close> lines 121 to 136\<close>

text \<open>\<^verbatim>\<open>return (iaFront + id) % numCells;\<close>\<close>

definition iaFromID_h :: "'a deque \<Rightarrow> cint \<Rightarrow> error + cint" where
  "iaFromID_h s ident =
     (case int_add (iaFront s) ident of
        Inl e \<Rightarrow> Inl e
      | Inr x \<Rightarrow>
          if numCells s = 0 then Inl DivByZero
          else Inr (ucast ((scast x :: size_t) mod numCells s)))"

text \<open>\<^verbatim>\<open>return (iaFront + id) / numCells;\<close>\<close>

definition ibFromID_h :: "'a deque \<Rightarrow> cint \<Rightarrow> error + cint" where
  "ibFromID_h s ident =
     (case int_add (iaFront s) ident of
        Inl e \<Rightarrow> Inl e
      | Inr x \<Rightarrow>
          if numCells s = 0 then Inl DivByZero
          else Inr (ucast ((scast x :: size_t) div numCells s)))"

text \<open>\<^verbatim>\<open>return (iaFront + id) % numCells;\<close>\<close>

definition icFromID_h :: "'a deque \<Rightarrow> cint \<Rightarrow> error + cint" where
  "icFromID_h s ident =
     (case int_add (iaFront s) ident of
        Inl e \<Rightarrow> Inl e
      | Inr x \<Rightarrow>
          if numCells s = 0 then Inl DivByZero
          else Inr (ucast ((scast x :: size_t) mod numCells s)))"

subsection \<open>Memory access\<close>

text \<open>\<^verbatim>\<open>arr[ib]\<close> on an array of block pointers: load and store.\<close>

definition arr_load :: "'a ptr list \<Rightarrow> cint \<Rightarrow> error + 'a ptr" where
  "arr_load bs ib =
     (if 0 \<le> sint ib \<and> nat (sint ib) < length bs then Inr (bs ! nat (sint ib))
      else Inl OutOfBounds)"

definition arr_store :: "'a ptr list \<Rightarrow> cint \<Rightarrow> 'a ptr \<Rightarrow> error + 'a ptr list" where
  "arr_store bs ib p =
     (if 0 \<le> sint ib \<and> nat (sint ib) < length bs then Inr (bs[nat (sint ib) := p])
      else Inl OutOfBounds)"

text \<open>\<^verbatim>\<open>data[ib]\<close>: load a block pointer from the deque's block array.\<close>

definition load_block :: "'a deque \<Rightarrow> cint \<Rightarrow> error + 'a ptr" where
  "load_block s ib =
     (case data s of
        None \<Rightarrow> Inl NullDeref
      | Some bs \<Rightarrow> arr_load bs ib)"

text \<open>\<^verbatim>\<open>data[ib] = p\<close>: store a block pointer into the deque's block array.\<close>

definition store_block :: "'a deque \<Rightarrow> cint \<Rightarrow> 'a ptr \<Rightarrow> error + 'a deque" where
  "store_block s ib p =
     (case data s of
        None \<Rightarrow> Inl NullDeref
      | Some bs \<Rightarrow>
          (case arr_store bs ib p of
             Inl e \<Rightarrow> Inl e
           | Inr bs' \<Rightarrow> Inr (s\<lparr>data := Some bs'\<rparr>)))"

text \<open>
  \<^verbatim>\<open>p[ic]\<close> read as a value. Reading a slot that holds no constructed object is the
  error \<open>NoObject\<close>.
\<close>

definition read_cell :: "'a ptr \<Rightarrow> cint \<Rightarrow> error + 'a" where
  "read_cell p ic =
     (case p of
        Null \<Rightarrow> Inl NullDeref
      | Wild \<Rightarrow> Inl WildDeref
      | Block cs \<Rightarrow>
          if 0 \<le> sint ic \<and> nat (sint ic) < length cs
          then (case cs ! nat (sint ic) of None \<Rightarrow> Inl NoObject | Some v \<Rightarrow> Inr v)
          else Inl OutOfBounds)"

text \<open>
  The slot \<^verbatim>\<open>p[ic]\<close> overwritten: with \<open>Some v\<close> by an assignment \<^verbatim>\<open>p[ic] = v\<close>, with
  \<open>None\<close> by \<^verbatim>\<open>alloc.destroy(&p[ic])\<close>. Neither looks at what the slot held before:
  an assignment to a raw slot leaves the object there, and destroying a raw slot leaves
  it raw.
\<close>

definition write_cell :: "'a ptr \<Rightarrow> cint \<Rightarrow> 'a option \<Rightarrow> error + 'a ptr" where
  "write_cell p ic x =
     (case p of
        Null \<Rightarrow> Inl NullDeref
      | Wild \<Rightarrow> Inl WildDeref
      | Block cs \<Rightarrow>
          if 0 \<le> sint ic \<and> nat (sint ic) < length cs
          then Inr (Block (cs[nat (sint ic) := x]))
          else Inl OutOfBounds)"

text \<open>\<^verbatim>\<open>data[ib][ic]\<close> overwritten in place.\<close>

definition put_slot :: "'a deque \<Rightarrow> cint \<Rightarrow> cint \<Rightarrow> 'a option \<Rightarrow> error + 'a deque" where
  "put_slot s ib ic x =
     (case load_block s ib of
        Inl e \<Rightarrow> Inl e
      | Inr p \<Rightarrow>
          (case write_cell p ic x of
             Inl e \<Rightarrow> Inl e
           | Inr p' \<Rightarrow> store_block s ib p'))"

subsection \<open>Accessors\<close>

text \<open>
  \<^verbatim>\<open>operator[]\<close>, \<^verbatim>\<open>return data[ibFromID(id)][icFromID(id)];\<close>, read as a value.
\<close>

definition op_index :: "'a deque \<Rightarrow> cint \<Rightarrow> error + 'a" where
  "op_index s ident =
     (case ibFromID s ident of
        Inl e \<Rightarrow> Inl e
      | Inr ib \<Rightarrow>
          (case icFromID s ident of
             Inl e \<Rightarrow> Inl e
           | Inr ic \<Rightarrow>
               (case load_block s ib of
                  Inl e \<Rightarrow> Inl e
                | Inr p \<Rightarrow> read_cell p ic)))"

definition op_index_h :: "'a deque \<Rightarrow> cint \<Rightarrow> error + 'a" where
  "op_index_h s ident =
     (case ibFromID_h s ident of
        Inl e \<Rightarrow> Inl e
      | Inr ib \<Rightarrow>
          (case icFromID_h s ident of
             Inl e \<Rightarrow> Inl e
           | Inr ic \<Rightarrow>
               (case load_block s ib of
                  Inl e \<Rightarrow> Inl e
                | Inr p \<Rightarrow> read_cell p ic)))"

text \<open>\<^verbatim>\<open>operator[]\<close> with a value assigned through the returned reference.\<close>

definition op_index_assign :: "'a deque \<Rightarrow> cint \<Rightarrow> 'a \<Rightarrow> error + 'a deque" where
  "op_index_assign s ident v =
     (case ibFromID s ident of
        Inl e \<Rightarrow> Inl e
      | Inr ib \<Rightarrow>
          (case icFromID s ident of
             Inl e \<Rightarrow> Inl e
           | Inr ic \<Rightarrow> put_slot s ib ic (Some v)))"

text \<open>\<^verbatim>\<open>front()\<close>: \<^verbatim>\<open>data[ibFromID(0)][icFromID(0)]\<close>.\<close>

definition front :: "'a deque \<Rightarrow> error + 'a" where
  "front s = op_index s 0"

definition front_h :: "'a deque \<Rightarrow> error + 'a" where
  "front_h s = op_index_h s 0"

text \<open>
  \<^verbatim>\<open>back()\<close> of \<^verbatim>\<open>src/unnamed/part_000\<close>: the index is
  \<^verbatim>\<open>static_cast<int>(numElements) - 1\<close>, computed on \<^verbatim>\<open>int\<close>.
\<close>

definition back_dq :: "'a deque \<Rightarrow> error + 'a" where
  "back_dq s =
     (case int_sub (ucast (numElements s)) 1 of
        Inl e \<Rightarrow> Inl e
      | Inr ident \<Rightarrow> op_index s ident)"

text \<open>
  \<^verbatim>\<open>back()\<close> of \<^verbatim>\<open>src/deque.h\<close>: the index is \<^verbatim>\<open>numElements - 1\<close>, computed on
  \<^verbatim>\<open>size_t\<close> and truncated to the \<^verbatim>\<open>int\<close> parameter.
\<close>

definition back_h :: "'a deque \<Rightarrow> error + 'a" where
  "back_h s = op_index_h s (ucast (numElements s - 1))"

definition size_dq :: "'a deque \<Rightarrow> size_t" where
  "size_dq s = numElements s"

definition empty_dq :: "'a deque \<Rightarrow> bool" where
  "empty_dq s = (numElements s = 0)"

section \<open>Loops over an \<^verbatim>\<open>int\<close> counter\<close>

text \<open>
  \<^verbatim>\<open>for (int i = ...; i < bound; ++i) body\<close> with \<open>bound\<close> of type \<^verbatim>\<open>size_t\<close>: the
  comparison converts \<open>i\<close> to \<^verbatim>\<open>size_t\<close>. The loop ends when the guard fails, when the
  body fails, or when the counter overflows.
\<close>

function for_int :: "size_t \<Rightarrow> (cint \<Rightarrow> 'st \<Rightarrow> error + 'st) \<Rightarrow> cint \<Rightarrow> 'st \<Rightarrow> error + 'st" where
  "for_int bound body i st =
     (if (scast i :: size_t) < bound then
        (case body i st of
           Inl e \<Rightarrow> Inl e
         | Inr st' \<Rightarrow>
             (case int_add i 1 of
                Inl e \<Rightarrow> Inl e
              | Inr i' \<Rightarrow> for_int bound body i' st'))
      else Inr st)"
  by pat_completeness auto
termination
  by (relation "measure (\<lambda>(bound, body, i, st). nat (2147483648 - sint i))")
     (auto simp: int_add_def sint_word_ariths signed_take_bit_int_eq_self split: if_splits)

declare for_int.simps [simp del]

section \<open>Operations of \<^verbatim>\<open>src/unnamed/part_000\<close>\<close>

subsection \<open>\<^verbatim>\<open>push_back\<close>, lines 299 to 311\<close>

text \<open>Both overloads have an empty body.\<close>

definition push_back :: "'a deque \<Rightarrow> 'a \<Rightarrow> 'a deque" where
  "push_back s t = s"

subsection \<open>\<^verbatim>\<open>reallocate\<close>, lines 434 to 478\<close>

text \<open>
  \<^verbatim>\<open>for (int idOld = 0; idOld > numElements; idOld + numCells)\<close>
  \<^verbatim>\<open>{ dataNew[ibNew] = data[ibFromID(idOld)]; ibNew ++; }\<close>
  The guard compares on \<^verbatim>\<open>size_t\<close>; the third clause computes a sum and drops it, so
  \<open>idOld\<close> never changes.
\<close>

function unwrap_loop ::
  "'a deque \<Rightarrow> 'a ptr list \<Rightarrow> cint \<Rightarrow> cint \<Rightarrow> error + ('a ptr list \<times> cint)" where
  "unwrap_loop s dataNew ibNew idOld =
     (if numElements s < (scast idOld :: size_t) then
        (case ibFromID s idOld of
           Inl e \<Rightarrow> Inl e
         | Inr ib \<Rightarrow>
             (case load_block s ib of
                Inl e \<Rightarrow> Inl e
              | Inr p \<Rightarrow>
                  (case arr_store dataNew ibNew p of
                     Inl e \<Rightarrow> Inl e
                   | Inr dataNew' \<Rightarrow>
                       (case int_add ibNew 1 of
                          Inl e \<Rightarrow> Inl e
                        | Inr ibNew' \<Rightarrow> unwrap_loop s dataNew' ibNew' idOld))))
      else Inr (dataNew, ibNew))"
  by pat_completeness auto
termination
  by (relation "measure (\<lambda>(s, dataNew, ibNew, idOld). nat (2147483648 - sint ibNew))")
     (auto simp: int_add_def sint_word_ariths signed_take_bit_int_eq_self split: if_splits)

declare unwrap_loop.simps [simp del]

text \<open>
  \<^verbatim>\<open>while (ibNew < numBlocksNew) { dataNew[ibNew] = nullptr; ibNew ++; }\<close>,
  a comparison of two \<^verbatim>\<open>int\<close>.
\<close>

function null_rest :: "'a ptr list \<Rightarrow> cint \<Rightarrow> cint \<Rightarrow> error + 'a ptr list" where
  "null_rest dataNew ibNew numBlocksNew =
     (if sint ibNew < sint numBlocksNew then
        (case arr_store dataNew ibNew Null of
           Inl e \<Rightarrow> Inl e
         | Inr dataNew' \<Rightarrow>
             (case int_add ibNew 1 of
                Inl e \<Rightarrow> Inl e
              | Inr ibNew' \<Rightarrow> null_rest dataNew' ibNew' numBlocksNew))
      else Inr dataNew)"
  by pat_completeness auto
termination
  by (relation "measure (\<lambda>(dataNew, ibNew, numBlocksNew). nat (2147483648 - sint ibNew))")
     (auto simp: int_add_def sint_word_ariths signed_take_bit_int_eq_self split: if_splits)

declare null_rest.simps [simp del]

text \<open>
  The guard of the last \<^verbatim>\<open>if\<close>, with the short circuit of \<^verbatim>\<open>&&\<close>:
  \<^verbatim>\<open>numElements > 0 && ibFromID(0) == ibFromID(static_cast<int>(numElements) - 1)\<close>
  \<^verbatim>\<open>&& icFromID(0) == icFromID(static_cast<int>(numElements) - 1)\<close>.
\<close>

definition back_in_front_cell :: "'a deque \<Rightarrow> error + bool" where
  "back_in_front_cell s =
     (if 0 < numElements s then
        (case ibFromID s 0 of
           Inl e \<Rightarrow> Inl e
         | Inr b0 \<Rightarrow>
             (case int_sub (ucast (numElements s)) 1 of
                Inl e \<Rightarrow> Inl e
              | Inr idBack \<Rightarrow>
                  (case ibFromID s idBack of
                     Inl e \<Rightarrow> Inl e
                   | Inr b1 \<Rightarrow>
                       if b0 = b1 then
                         (case icFromID s 0 of
                            Inl e \<Rightarrow> Inl e
                          | Inr c0 \<Rightarrow>
                              (case icFromID s idBack of
                                 Inl e \<Rightarrow> Inl e
                               | Inr c1 \<Rightarrow> Inr (c0 = c1)))
                       else Inr False)))
      else Inr False)"

text \<open>
  \<^verbatim>\<open>for (int ic = 0; ic > icFromID(static_cast<int>(numElements) - 1); ic++)\<close>
  \<^verbatim>\<open>{ dataNew[ibBackNew][ic] = std::move(data[ibBackOld][ic]); }\<close>
  The deque is not changed by the loop, so the bound \<open>icBack\<close> is the same at every test.
\<close>

function move_loop ::
  "'a deque \<Rightarrow> 'a ptr list \<Rightarrow> cint \<Rightarrow> cint \<Rightarrow> cint \<Rightarrow> cint \<Rightarrow> error + 'a ptr list" where
  "move_loop s dataNew ibBackOld ibBackNew icBack ic =
     (if sint icBack < sint ic then
        (case load_block s ibBackOld of
           Inl e \<Rightarrow> Inl e
         | Inr src \<Rightarrow>
             (case read_cell src ic of
                Inl e \<Rightarrow> Inl e
              | Inr v \<Rightarrow>
                  (case arr_load dataNew ibBackNew of
                     Inl e \<Rightarrow> Inl e
                   | Inr dst \<Rightarrow>
                       (case write_cell dst ic (Some v) of
                          Inl e \<Rightarrow> Inl e
                        | Inr dst' \<Rightarrow>
                            (case arr_store dataNew ibBackNew dst' of
                               Inl e \<Rightarrow> Inl e
                             | Inr dataNew' \<Rightarrow>
                                 (case int_add ic 1 of
                                    Inl e \<Rightarrow> Inl e
                                  | Inr ic' \<Rightarrow>
                                      move_loop s dataNew' ibBackOld ibBackNew icBack ic'))))))
      else Inr dataNew)"
  by pat_completeness auto
termination
  by (relation "measure (\<lambda>(s, dataNew, ibBackOld, ibBackNew, icBack, ic). nat (2147483648 - sint ic))")
     (auto simp: int_add_def sint_word_ariths signed_take_bit_int_eq_self split: if_splits)

declare move_loop.simps [simp del]

text \<open>
  The body of the last \<^verbatim>\<open>if\<close>. \<^verbatim>\<open>new T(static_cast<int>(numCells))\<close> allocates one
  object of type \<open>T\<close>, built from the \<^verbatim>\<open>int\<close>; the parameter \<open>T_of_int\<close> is that
  converting constructor of the element type.
\<close>

definition move_back_block ::
  "(cint \<Rightarrow> 'a) \<Rightarrow> 'a deque \<Rightarrow> 'a ptr list \<Rightarrow> error + 'a ptr list" where
  "move_back_block T_of_int s dataNew =
     (case int_sub (ucast (numElements s)) 1 of
        Inl e \<Rightarrow> Inl e
      | Inr idBack \<Rightarrow>
          (case ibFromID s idBack of
             Inl e \<Rightarrow> Inl e
           | Inr ibBackOld \<Rightarrow>
               if numCells s = 0 then Inl DivByZero
               else
                 (let ibBackNew =
                        (ucast ((scast (ucast (numElements s) :: cint) :: size_t) div numCells s)
                          :: cint)
                  in case arr_store dataNew ibBackNew
                            (Block [Some (T_of_int (ucast (numCells s)))]) of
                       Inl e \<Rightarrow> Inl e
                     | Inr dataNew' \<Rightarrow>
                         (case icFromID s idBack of
                            Inl e \<Rightarrow> Inl e
                          | Inr icBack \<Rightarrow>
                              move_loop s dataNew' ibBackOld ibBackNew icBack 0))))"

text \<open>
  \<^verbatim>\<open>reallocate(int numBlocksNew)\<close>. The fresh \<^verbatim>\<open>new T*[numBlocksNew]\<close> holds
  uninitialised pointers. \<^verbatim>\<open>delete data\<close> releases the old pointer array and none of
  the blocks; the old array is not read again. Allocation is assumed to succeed.
\<close>

definition reallocate :: "(cint \<Rightarrow> 'a) \<Rightarrow> 'a deque \<Rightarrow> cint \<Rightarrow> error + 'a deque" where
  "reallocate T_of_int s numBlocksNew =
     (if \<not> (0 < sint numBlocksNew \<and> numElements s < (scast numBlocksNew :: size_t))
      then Inl AssertFailed
      else
        (case unwrap_loop s (replicate (unat (scast numBlocksNew :: size_t)) Wild) 0 0 of
           Inl e \<Rightarrow> Inl e
         | Inr (dataNew1, ibNew) \<Rightarrow>
             (case null_rest dataNew1 ibNew numBlocksNew of
                Inl e \<Rightarrow> Inl e
              | Inr dataNew2 \<Rightarrow>
                  (case back_in_front_cell s of
                     Inl e \<Rightarrow> Inl e
                   | Inr c \<Rightarrow>
                       (case (if c then move_back_block T_of_int s dataNew2 else Inr dataNew2) of
                          Inl e \<Rightarrow> Inl e
                        | Inr dataNew3 \<Rightarrow>
                            if numCells s = 0 then Inl DivByZero
                            else Inr (s\<lparr>data := Some dataNew3,
                                        numBlocks := scast numBlocksNew,
                                        iaFront :=
                                          ucast ((scast (iaFront s) :: size_t) mod numCells s)\<rparr>))))))"

subsection \<open>\<^verbatim>\<open>push_front\<close>, lines 317 to 342\<close>

text \<open>
  \<^verbatim>\<open>iaFront = (iaFront - 1 + numBlocks * numCells) % (numBlocks * numCells);\<close>
  The subtraction is on \<^verbatim>\<open>int\<close>, the sum and the remainder on \<^verbatim>\<open>size_t\<close>.
\<close>

definition step_front_down :: "'a deque \<Rightarrow> error + 'a deque" where
  "step_front_down s =
     (case int_sub (iaFront s) 1 of
        Inl e \<Rightarrow> Inl e
      | Inr x \<Rightarrow>
          if numBlocks s * numCells s = 0 then Inl DivByZero
          else Inr (s\<lparr>iaFront :=
                      ucast (((scast x :: size_t) + numBlocks s * numCells s)
                               mod (numBlocks s * numCells s))\<rparr>))"

text \<open>
  The copy and the move overload run the same statements; the model has one function
  for both. The argument of \<^verbatim>\<open>reallocate\<close> is \<^verbatim>\<open>numBlocks + 1\<close>, a \<^verbatim>\<open>size_t\<close>
  truncated to the \<^verbatim>\<open>int\<close> parameter.
\<close>

definition push_front :: "(cint \<Rightarrow> 'a) \<Rightarrow> 'a deque \<Rightarrow> 'a \<Rightarrow> error + 'a deque" where
  "push_front T_of_int s t =
     (case (if numElements s = numBlocks s * numCells s
            then reallocate T_of_int s (ucast (numBlocks s + 1)) else Inr s) of
        Inl e \<Rightarrow> Inl e
      | Inr s1 \<Rightarrow>
          (case step_front_down s1 of
             Inl e \<Rightarrow> Inl e
           | Inr s2 \<Rightarrow>
               (case op_index_assign s2 0 t of
                  Inl e \<Rightarrow> Inl e
                | Inr s3 \<Rightarrow> Inr (s3\<lparr>numElements := numElements s3 + 1\<rparr>))))"

subsection \<open>\<^verbatim>\<open>clear\<close>, lines 348 to 367\<close>

text \<open>\<^verbatim>\<open>alloc.destroy(&data[ibFromID(id)][icFromID(id)]);\<close>\<close>

definition destroy_at :: "'a deque \<Rightarrow> cint \<Rightarrow> error + 'a deque" where
  "destroy_at s ident =
     (case ibFromID s ident of
        Inl e \<Rightarrow> Inl e
      | Inr ib \<Rightarrow>
          (case icFromID s ident of
             Inl e \<Rightarrow> Inl e
           | Inr ic \<Rightarrow> put_slot s ib ic None))"

text \<open>\<^verbatim>\<open>if (data[ib] != nullptr) { data[ib] = nullptr; }\<close>\<close>

definition null_block :: "cint \<Rightarrow> 'a deque \<Rightarrow> error + 'a deque" where
  "null_block ib s =
     (case load_block s ib of
        Inl e \<Rightarrow> Inl e
      | Inr p \<Rightarrow> if p \<noteq> Null then store_block s ib Null else Inr s)"

definition clear :: "'a deque \<Rightarrow> error + 'a deque" where
  "clear s =
     (case for_int (numElements s) (\<lambda>iD st. destroy_at st iD) 0 s of
        Inl e \<Rightarrow> Inl e
      | Inr s1 \<Rightarrow>
          (case for_int (numBlocks s1) null_block 0 s1 of
             Inl e \<Rightarrow> Inl e
           | Inr s2 \<Rightarrow> Inr (s2\<lparr>numElements := 0\<rparr>)))"

subsection \<open>\<^verbatim>\<open>pop_front\<close>, lines 373 to 407\<close>

text \<open>
  \<^verbatim>\<open>&p[ic] != nullptr\<close>: the address of a slot of an allocated block is never null;
  the address computed from a null block pointer is null at offset 0 only.
\<close>

definition slot_addr_not_null :: "'a ptr \<Rightarrow> cint \<Rightarrow> error + bool" where
  "slot_addr_not_null p ic =
     (case p of
        Null \<Rightarrow> Inr (ic \<noteq> 0)
      | Wild \<Rightarrow> Inl WildDeref
      | Block cs \<Rightarrow> Inr True)"

text \<open>
  \<^verbatim>\<open>for (int ic = 0; ic < numCells; ++ic)\<close>
  \<^verbatim>\<open>{ if (&data[ibFromID(idRemove)][ic] != nullptr) blockEmpty = false; }\<close>
  with \<open>idRemove = 0\<close>; the loop state is \<open>blockEmpty\<close>.
\<close>

definition block_empty_step :: "'a deque \<Rightarrow> cint \<Rightarrow> bool \<Rightarrow> error + bool" where
  "block_empty_step s ic blockEmpty =
     (case ibFromID s 0 of
        Inl e \<Rightarrow> Inl e
      | Inr ib \<Rightarrow>
          (case load_block s ib of
             Inl e \<Rightarrow> Inl e
           | Inr p \<Rightarrow>
               (case slot_addr_not_null p ic of
                  Inl e \<Rightarrow> Inl e
                | Inr nn \<Rightarrow> Inr (if nn then False else blockEmpty))))"

text \<open>\<^verbatim>\<open>data[ibFromID(idRemove)] = nullptr;\<close> with \<open>idRemove = 0\<close>.\<close>

definition null_front_block :: "'a deque \<Rightarrow> error + 'a deque" where
  "null_front_block s =
     (case ibFromID s 0 of
        Inl e \<Rightarrow> Inl e
      | Inr ib \<Rightarrow> store_block s ib Null)"

text \<open>
  \<^verbatim>\<open>if (numBlocks == 1) iaFront = (iaFront + 1) % numCells; else { iaFront++; }\<close>
\<close>

definition step_front_up :: "'a deque \<Rightarrow> error + 'a deque" where
  "step_front_up s =
     (case int_add (iaFront s) 1 of
        Inl e \<Rightarrow> Inl e
      | Inr x \<Rightarrow>
          if numBlocks s = 1 then
            (if numCells s = 0 then Inl DivByZero
             else Inr (s\<lparr>iaFront := ucast ((scast x :: size_t) mod numCells s)\<rparr>))
          else Inr (s\<lparr>iaFront := x\<rparr>))"

definition pop_front :: "'a deque \<Rightarrow> error + 'a deque" where
  "pop_front s =
     (if \<not> 0 < numElements s then Inl AssertFailed
      else
        (case destroy_at s 0 of
           Inl e \<Rightarrow> Inl e
         | Inr s1 \<Rightarrow>
             (case for_int (numCells s1) (block_empty_step s1) 0 True of
                Inl e \<Rightarrow> Inl e
              | Inr blockEmpty \<Rightarrow>
                  (case (if blockEmpty then null_front_block s1 else Inr s1) of
                     Inl e \<Rightarrow> Inl e
                   | Inr s2 \<Rightarrow>
                       (case (if numElements s2 = 1
                              then null_front_block (s2\<lparr>iaFront := 0\<rparr>) else Inr s2) of
                          Inl e \<Rightarrow> Inl e
                        | Inr s3 \<Rightarrow>
                            (case step_front_up s3 of
                               Inl e \<Rightarrow> Inl e
                             | Inr s4 \<Rightarrow>
                                 Inr (s4\<lparr>numElements := numElements s4 - 1\<rparr>)))))))"

subsection \<open>\<^verbatim>\<open>pop_back\<close>, lines 413 to 427\<close>

text \<open>
  The guard \<^verbatim>\<open>numElements == 1 || (icFromID(idRemove) == 0 &&\<close>
  \<^verbatim>\<open>ibFromID(idRemove) != ibFromID(0))\<close>, with the short circuits of \<^verbatim>\<open>||\<close> and
  \<^verbatim>\<open>&&\<close>.
\<close>

definition back_block_unused :: "'a deque \<Rightarrow> cint \<Rightarrow> error + bool" where
  "back_block_unused s idRemove =
     (if numElements s = 1 then Inr True
      else
        (case icFromID s idRemove of
           Inl e \<Rightarrow> Inl e
         | Inr ic \<Rightarrow>
             if ic = 0 then
               (case ibFromID s idRemove of
                  Inl e \<Rightarrow> Inl e
                | Inr ib \<Rightarrow>
                    (case ibFromID s 0 of
                       Inl e \<Rightarrow> Inl e
                     | Inr ib0 \<Rightarrow> Inr (ib \<noteq> ib0)))
             else Inr False))"

definition pop_back :: "'a deque \<Rightarrow> error + 'a deque" where
  "pop_back s =
     (if \<not> 0 < numElements s then Inl AssertFailed
      else
        (case int_sub (ucast (numElements s)) 1 of
           Inl e \<Rightarrow> Inl e
         | Inr idRemove \<Rightarrow>
             (case destroy_at s idRemove of
                Inl e \<Rightarrow> Inl e
              | Inr s1 \<Rightarrow>
                  (case back_block_unused s1 idRemove of
                     Inl e \<Rightarrow> Inl e
                   | Inr c \<Rightarrow>
                       (case (if c then
                                (case ibFromID s1 idRemove of
                                   Inl e \<Rightarrow> Inl e
                                 | Inr ib \<Rightarrow> store_block s1 ib Null)
                              else Inr s1) of
                          Inl e \<Rightarrow> Inl e
                        | Inr s2 \<Rightarrow> Inr (s2\<lparr>numElements := numElements s2 - 1\<rparr>))))))"

subsection \<open>The iterator, lines 160 to 242 of both files\<close>

text \<open>
  An iterator holds the index \<open>id\<close> and a pointer \<open>d\<close> to its deque. The deque is not
  owned by the iterator; the operations that follow the pointer take the deque as an
  argument.
\<close>

record iterator =
  it_id :: cint

text \<open>\<^verbatim>\<open>begin()\<close>: \<^verbatim>\<open>return iterator(0, this);\<close>\<close>

definition begin_dq :: "'a deque \<Rightarrow> iterator" where
  "begin_dq s = \<lparr>it_id = 0\<rparr>"

text \<open>
  \<^verbatim>\<open>end()\<close>: \<^verbatim>\<open>return iterator(static_cast<int>(numElements), this);\<close> in
  \<^verbatim>\<open>src/unnamed/part_000\<close>, \<^verbatim>\<open>return iterator(numElements, this);\<close> in
  \<^verbatim>\<open>src/deque.h\<close>: the same truncation of \<^verbatim>\<open>size_t\<close> to \<^verbatim>\<open>int\<close>.
\<close>

definition end_dq :: "'a deque \<Rightarrow> iterator" where
  "end_dq s = \<lparr>it_id = ucast (numElements s)\<rparr>"

text \<open>\<^verbatim>\<open>operator !=\<close> and \<^verbatim>\<open>operator ==\<close> compare the index only.\<close>

definition it_neq :: "iterator \<Rightarrow> iterator \<Rightarrow> bool" where
  "it_neq a b = (it_id a \<noteq> it_id b)"

definition it_eq :: "iterator \<Rightarrow> iterator \<Rightarrow> bool" where
  "it_eq a b = (it_id a = it_id b)"

text \<open>\<^verbatim>\<open>operator *\<close>: \<^verbatim>\<open>return d->operator[](id);\<close>, read as a value.\<close>

definition it_deref :: "'a deque \<Rightarrow> iterator \<Rightarrow> error + 'a" where
  "it_deref s it = op_index s (it_id it)"

definition it_deref_h :: "'a deque \<Rightarrow> iterator \<Rightarrow> error + 'a" where
  "it_deref_h s it = op_index_h s (it_id it)"

text \<open>\<^verbatim>\<open>*it = v\<close>: assignment through the reference that \<^verbatim>\<open>operator *\<close> returns.\<close>

definition it_assign :: "'a deque \<Rightarrow> iterator \<Rightarrow> 'a \<Rightarrow> error + 'a deque" where
  "it_assign s it v = op_index_assign s (it_id it) v"

text \<open>\<^verbatim>\<open>operator -\<close>: \<^verbatim>\<open>return id - it.id;\<close>\<close>

definition it_minus :: "iterator \<Rightarrow> iterator \<Rightarrow> error + cint" where
  "it_minus a b = int_sub (it_id a) (it_id b)"

text \<open>\<^verbatim>\<open>operator +=\<close>: \<^verbatim>\<open>id += offset;\<close>\<close>

definition it_plus_assign :: "iterator \<Rightarrow> cint \<Rightarrow> error + iterator" where
  "it_plus_assign it offset =
     (case int_add (it_id it) offset of
        Inl e \<Rightarrow> Inl e
      | Inr i \<Rightarrow> Inr (it\<lparr>it_id := i\<rparr>))"

text \<open>Prefix \<^verbatim>\<open>operator ++\<close>: \<^verbatim>\<open>++id;\<close>\<close>

definition it_incr :: "iterator \<Rightarrow> error + iterator" where
  "it_incr it =
     (case int_add (it_id it) 1 of
        Inl e \<Rightarrow> Inl e
      | Inr i \<Rightarrow> Inr (it\<lparr>it_id := i\<rparr>))"

text \<open>Prefix \<^verbatim>\<open>operator --\<close>: \<^verbatim>\<open>--id;\<close>\<close>

definition it_decr :: "iterator \<Rightarrow> error + iterator" where
  "it_decr it =
     (case int_sub (it_id it) 1 of
        Inl e \<Rightarrow> Inl e
      | Inr i \<Rightarrow> Inr (it\<lparr>it_id := i\<rparr>))"

text \<open>
  The traversal \<^verbatim>\<open>for (it = begin(); it != end(); ++it) visit(*it);\<close> of a caller, with
  the dereference \<open>deref\<close> of either variant. The result lists the values visited, in
  the order of the visits.
\<close>

function traverse ::
  "('a deque \<Rightarrow> iterator \<Rightarrow> error + 'a) \<Rightarrow> 'a deque \<Rightarrow> iterator \<Rightarrow> error + 'a list" where
  "traverse deref s it =
     (if it_neq it (end_dq s) then
        (case deref s it of
           Inl e \<Rightarrow> Inl e
         | Inr v \<Rightarrow>
             (case it_incr it of
                Inl e \<Rightarrow> Inl e
              | Inr it' \<Rightarrow>
                  (case traverse deref s it' of
                     Inl e \<Rightarrow> Inl e
                   | Inr vs \<Rightarrow> Inr (v # vs))))
      else Inr [])"
  by pat_completeness auto
termination
  by (relation "measure (\<lambda>(deref, s, it). nat (2147483648 - sint (it_id it)))")
     (auto simp: it_incr_def int_add_def sint_word_ariths signed_take_bit_int_eq_self
           split: if_splits)

declare traverse.simps [simp del]

subsection \<open>Copy assignment and copy construction, lines 249 to 293\<close>

text \<open>
  \<^verbatim>\<open>while (itLHS != end() && itRHS != rhs.end())\<close>
  \<^verbatim>\<open>{ *itLHS = *itRHS; ++itLHS; ++itRHS; }\<close>
\<close>

function assign_loop ::
  "'a deque \<Rightarrow> 'a deque \<Rightarrow> iterator \<Rightarrow> iterator \<Rightarrow> error + ('a deque \<times> iterator \<times> iterator)"
  where
  "assign_loop lhs rhs itLHS itRHS =
     (if it_neq itLHS (end_dq lhs) \<and> it_neq itRHS (end_dq rhs) then
        (case it_deref rhs itRHS of
           Inl e \<Rightarrow> Inl e
         | Inr v \<Rightarrow>
             (case it_assign lhs itLHS v of
                Inl e \<Rightarrow> Inl e
              | Inr lhs' \<Rightarrow>
                  (case it_incr itLHS of
                     Inl e \<Rightarrow> Inl e
                   | Inr itLHS' \<Rightarrow>
                       (case it_incr itRHS of
                          Inl e \<Rightarrow> Inl e
                        | Inr itRHS' \<Rightarrow> assign_loop lhs' rhs itLHS' itRHS'))))
      else Inr (lhs, itLHS, itRHS))"
  by pat_completeness auto
termination
  by (relation "measure (\<lambda>(lhs, rhs, itLHS, itRHS). nat (2147483648 - sint (it_id itLHS)))")
     (auto simp: it_incr_def int_add_def sint_word_ariths signed_take_bit_int_eq_self
           split: if_splits)

declare assign_loop.simps [simp del]

text \<open>
  The reference \<^verbatim>\<open>*itRHS\<close> bound to the parameter of \<^verbatim>\<open>push_back\<close>: the indices
  are computed and the block pointer is loaded, the slot is not read.
\<close>

definition it_ref :: "'a deque \<Rightarrow> iterator \<Rightarrow> error + (cint \<times> cint)" where
  "it_ref s it =
     (case ibFromID s (it_id it) of
        Inl e \<Rightarrow> Inl e
      | Inr ib \<Rightarrow>
          (case icFromID s (it_id it) of
             Inl e \<Rightarrow> Inl e
           | Inr ic \<Rightarrow>
               (case load_block s ib of
                  Inl e \<Rightarrow> Inl e
                | Inr p \<Rightarrow> Inr (ib, ic))))"

text \<open>
  \<^verbatim>\<open>while (itRHS != rhs.end()) { push_back(*itRHS); ++itRHS; }\<close>
  The body of \<^verbatim>\<open>push_back\<close> is empty and never reads through the reference it is
  given: the call leaves \<open>lhs\<close> as it is (\<open>push_back lhs v = lhs\<close> for every \<open>v\<close>).
\<close>

function append_loop :: "'a deque \<Rightarrow> 'a deque \<Rightarrow> iterator \<Rightarrow> error + 'a deque" where
  "append_loop lhs rhs itRHS =
     (if it_neq itRHS (end_dq rhs) then
        (case it_ref rhs itRHS of
           Inl e \<Rightarrow> Inl e
         | Inr r \<Rightarrow>
             (case it_incr itRHS of
                Inl e \<Rightarrow> Inl e
              | Inr itRHS' \<Rightarrow> append_loop lhs rhs itRHS'))
      else Inr lhs)"
  by pat_completeness auto
termination
  by (relation "measure (\<lambda>(lhs, rhs, itRHS). nat (2147483648 - sint (it_id itRHS)))")
     (auto simp: it_incr_def int_add_def sint_word_ariths signed_take_bit_int_eq_self
           split: if_splits)

declare append_loop.simps [simp del]


text \<open>
  \<^verbatim>\<open>operator =\<close>. The assignments to \<open>data\<close>, \<open>alloc\<close>, \<open>numCells\<close> and
  \<open>numBlocks\<close> are commented out in the source.
\<close>

definition op_assign :: "'a deque \<Rightarrow> 'a deque \<Rightarrow> error + 'a deque" where
  "op_assign lhs rhs =
     (case assign_loop lhs rhs (begin_dq lhs) (begin_dq rhs) of
        Inl e \<Rightarrow> Inl e
      | Inr (lhs1, itLHS, itRHS) \<Rightarrow>
          (case append_loop lhs1 rhs itRHS of
             Inl e \<Rightarrow> Inl e
           | Inr lhs2 \<Rightarrow>
               Inr (lhs2\<lparr>numElements := numElements rhs, iaFront := iaFront rhs\<rparr>)))"

text \<open>
  The copy constructor, \<^verbatim>\<open>*this = rhs;\<close>, has no member initialisers: the members
  of the new object hold whatever the memory held, here the argument \<open>uninit\<close>.
\<close>

definition copy_ctor :: "'a deque \<Rightarrow> 'a deque \<Rightarrow> error + 'a deque" where
  "copy_ctor uninit rhs = op_assign uninit rhs"

section \<open>Operations of \<^verbatim>\<open>src/deque.h\<close>\<close>

text \<open>
  \<^verbatim>\<open>operator =\<close> returns \<^verbatim>\<open>*this\<close> and does nothing else; \<^verbatim>\<open>push_back\<close>,
  \<^verbatim>\<open>push_front\<close>, \<^verbatim>\<open>clear\<close>, \<^verbatim>\<open>pop_front\<close> and \<^verbatim>\<open>reallocate\<close> have empty
  bodies.
\<close>

definition op_assign_h :: "'a deque \<Rightarrow> 'a deque \<Rightarrow> 'a deque" where
  "op_assign_h lhs rhs = lhs"

definition push_back_h :: "'a deque \<Rightarrow> 'a \<Rightarrow> 'a deque" where
  "push_back_h s t = s"

definition push_front_h :: "'a deque \<Rightarrow> 'a \<Rightarrow> 'a deque" where
  "push_front_h s t = s"

definition clear_h :: "'a deque \<Rightarrow> 'a deque" where
  "clear_h s = s"

definition pop_front_h :: "'a deque \<Rightarrow> 'a deque" where
  "pop_front_h s = s"

definition reallocate_h :: "'a deque \<Rightarrow> cint \<Rightarrow> 'a deque" where
  "reallocate_h s numBlocksNew = s"

text \<open>
  \<^verbatim>\<open>pop_back\<close>, lines 337 to 343: the index \<^verbatim>\<open>numElements - 1\<close> is computed on
  \<^verbatim>\<open>size_t\<close> and truncated to the \<^verbatim>\<open>int\<close> parameter of the helpers.
\<close>

definition pop_back_h :: "'a deque \<Rightarrow> error + 'a deque" where
  "pop_back_h s =
     (if \<not> 0 < numElements s then Inl AssertFailed
      else
        (case ibFromID_h s (ucast (numElements s - 1)) of
           Inl e \<Rightarrow> Inl e
         | Inr ib \<Rightarrow>
             (case icFromID_h s (ucast (numElements s - 1)) of
                Inl e \<Rightarrow> Inl e
              | Inr ic \<Rightarrow>
                  (case put_slot s ib ic None of
                     Inl e \<Rightarrow> Inl e
                   | Inr s1 \<Rightarrow> Inr (s1\<lparr>numElements := numElements s1 - 1\<rparr>)))))"

text \<open>
  The copy constructor, lines 249 to 266. \<^verbatim>\<open>data[i] = new T[numCells];\<close> builds
  \<open>numCells\<close> objects, and the inner loop
  \<^verbatim>\<open>for (size_t j = 0; j < numCells; ++j) data[i][j] = rhs.data[i][j];\<close>
  assigns to each of them the value read from slot \<open>j\<close> of block \<open>i\<close> of \<open>rhs\<close>. The
  read of a raw slot is the error \<open>NoObject\<close>, as in \<open>read_cell\<close>. The function
  \<open>copy_cells_h\<close> is the inner loop over the indices \<open>j\<close>, from the block pointer
  \<^verbatim>\<open>rhs.data[i]\<close>; it returns the slots of the new block.
\<close>

fun copy_cells_h :: "'a ptr \<Rightarrow> nat list \<Rightarrow> error + 'a option list" where
  "copy_cells_h p [] = Inr []"
| "copy_cells_h p (j # js) =
     (case p of
        Null \<Rightarrow> Inl NullDeref
      | Wild \<Rightarrow> Inl WildDeref
      | Block cs \<Rightarrow>
          if j < length cs then
            (case cs ! j of
               None \<Rightarrow> Inl NoObject
             | Some v \<Rightarrow>
                 (case copy_cells_h p js of
                    Inl e \<Rightarrow> Inl e
                  | Inr r \<Rightarrow> Inr (Some v # r)))
          else Inl OutOfBounds)"

text \<open>
  One round of the outer loop. When \<open>numCells\<close> is 0 the inner loop does not run and
  \<^verbatim>\<open>rhs.data\<close> is not read.
\<close>

definition copy_block_h :: "'a deque \<Rightarrow> nat \<Rightarrow> error + 'a ptr" where
  "copy_block_h rhs i =
     (if unat (numCells rhs) = 0 then Inr (Block [])
      else
        (case data rhs of
           None \<Rightarrow> Inl NullDeref
         | Some bs \<Rightarrow>
             if i < length bs then
               (case copy_cells_h (bs ! i) [0 ..< unat (numCells rhs)] of
                  Inl e \<Rightarrow> Inl e
                | Inr r \<Rightarrow> Inr (Block r))
             else Inl OutOfBounds))"

text \<open>The outer loop \<^verbatim>\<open>for (size_t i = 0; i < numBlocks; ++i)\<close>, over the indices.\<close>

fun copy_blocks_h :: "'a deque \<Rightarrow> nat list \<Rightarrow> error + 'a ptr list" where
  "copy_blocks_h rhs [] = Inr []"
| "copy_blocks_h rhs (i # is) =
     (case copy_block_h rhs i of
        Inl e \<Rightarrow> Inl e
      | Inr b \<Rightarrow>
          (case copy_blocks_h rhs is of
             Inl e \<Rightarrow> Inl e
           | Inr bs \<Rightarrow> Inr (b # bs)))"

definition copy_ctor_h :: "'a deque \<Rightarrow> error + 'a deque" where
  "copy_ctor_h rhs =
     (case copy_blocks_h rhs [0 ..< unat (numBlocks rhs)] of
        Inl e \<Rightarrow> Inl e
      | Inr bs \<Rightarrow>
          Inr \<lparr>numCells = numCells rhs, numBlocks = numBlocks rhs,
               numElements = numElements rhs, iaFront = iaFront rhs, data = Some bs\<rparr>)"

section \<open>States and views used by the properties\<close>

text \<open>The block array as a list: empty when \<open>data\<close> is the null pointer.\<close>

definition blocks_of :: "'a deque \<Rightarrow> 'a ptr list" where
  "blocks_of s = (case data s of None \<Rightarrow> [] | Some bs \<Rightarrow> bs)"

text \<open>The total cell count \<open>blockCount * cellsPerBlock\<close>, as a natural number.\<close>

definition total_cells :: "'a deque \<Rightarrow> nat" where
  "total_cells s = unat (numBlocks s) * unat (numCells s)"

text \<open>The front offset as a natural number.\<close>

definition front_offset :: "'a deque \<Rightarrow> nat" where
  "front_offset s = nat (sint (iaFront s))"

text \<open>
  The absolute cell that the specification assigns to the logical index \<open>i\<close>:
  \<open>(frontOffset + i) mod (blockCount * cellsPerBlock)\<close>.
\<close>

definition abs_cell :: "'a deque \<Rightarrow> nat \<Rightarrow> nat" where
  "abs_cell s i = (front_offset s + i) mod total_cells s"

text \<open>
  The content of the absolute cell \<open>a\<close>: \<open>Some v\<close> when block \<open>a div cellsPerBlock\<close> is
  allocated and its slot \<open>a mod cellsPerBlock\<close> holds the object \<open>v\<close>.
\<close>

definition slot_at :: "'a deque \<Rightarrow> nat \<Rightarrow> 'a option" where
  "slot_at s a =
     (case blocks_of s ! (a div unat (numCells s)) of
        Block cs \<Rightarrow> cs ! (a mod unat (numCells s))
      | _ \<Rightarrow> None)"

text \<open>A block pointer of a well-formed block array: null, or a block of \<open>n\<close> slots.\<close>

definition block_ok :: "nat \<Rightarrow> 'a ptr \<Rightarrow> bool" where
  "block_ok n p = (case p of Null \<Rightarrow> True | Wild \<Rightarrow> False | Block cs \<Rightarrow> length cs = n)"

text \<open>
  The states of the data model of the specification, section 3: the block array has
  \<open>numBlocks\<close> entries, each null or a block of \<open>numCells\<close> slots; the element count is
  at most the total cell count; the front offset is not negative; every logical index
  below \<open>numElements\<close> is mapped to a slot that holds an object. Every index that the
  \<^verbatim>\<open>int\<close> helpers meet is in the range of \<^verbatim>\<open>int\<close>: the total cell count and
  \<open>iaFront + numElements\<close> are at most \<open>2^31\<close>.
\<close>

definition layout_ok :: "'a deque \<Rightarrow> bool" where
  "layout_ok s \<longleftrightarrow>
     0 < unat (numCells s) \<and>
     total_cells s < 2147483648 \<and>
     unat (numElements s) \<le> total_cells s \<and>
     0 \<le> sint (iaFront s) \<and>
     front_offset s + unat (numElements s) \<le> 2147483648 \<and>
     length (blocks_of s) = unat (numBlocks s) \<and>
     (data s = None \<longrightarrow> numBlocks s = 0) \<and>
     (\<forall>p \<in> set (blocks_of s). block_ok (unat (numCells s)) p) \<and>
     (\<forall>i \<in> {0 ..< unat (numElements s)}. slot_at s (abs_cell s i) \<noteq> None)"

text \<open>The logical sequence does not wrap past the end of the block array.\<close>

definition unwrapped :: "'a deque \<Rightarrow> bool" where
  "unwrapped s \<longleftrightarrow> front_offset s + unat (numElements s) \<le> total_cells s"

text \<open>The first error of a list of results, or all the values.\<close>

fun collect :: "(error + 'a) list \<Rightarrow> error + 'a list" where
  "collect [] = Inr []"
| "collect (r # rs) =
     (case r of
        Inl e \<Rightarrow> Inl e
      | Inr v \<Rightarrow> (case collect rs of Inl e \<Rightarrow> Inl e | Inr vs \<Rightarrow> Inr (v # vs)))"

subsection \<open>Reachable states\<close>

text \<open>
  The states that a caller of the public interface of \<^verbatim>\<open>src/unnamed/part_000\<close> can
  reach from the constructor: every operation that returns leads to a reachable state.
  (The copy constructor reads members that were never initialised and is left out.)
\<close>

inductive reachable :: "(cint \<Rightarrow> 'a) \<Rightarrow> 'a deque \<Rightarrow> bool" for T_of_int :: "cint \<Rightarrow> 'a" where
  reach_new: "reachable T_of_int deque_new"
| reach_push_back: "reachable T_of_int s \<Longrightarrow> reachable T_of_int (push_back s t)"
| reach_push_front:
    "reachable T_of_int s \<Longrightarrow> push_front T_of_int s t = Inr s' \<Longrightarrow> reachable T_of_int s'"
| reach_pop_front: "reachable T_of_int s \<Longrightarrow> pop_front s = Inr s' \<Longrightarrow> reachable T_of_int s'"
| reach_pop_back: "reachable T_of_int s \<Longrightarrow> pop_back s = Inr s' \<Longrightarrow> reachable T_of_int s'"
| reach_clear: "reachable T_of_int s \<Longrightarrow> clear s = Inr s' \<Longrightarrow> reachable T_of_int s'"
| reach_index_assign:
    "reachable T_of_int s \<Longrightarrow> op_index_assign s ident v = Inr s' \<Longrightarrow> reachable T_of_int s'"
| reach_assign:
    "reachable T_of_int lhs \<Longrightarrow> reachable T_of_int rhs \<Longrightarrow> op_assign lhs rhs = Inr lhs' \<Longrightarrow>
     reachable T_of_int lhs'"

subsection \<open>Concrete states\<close>

text \<open>
  Two blocks of 16 cells, the front at the last cell of the array: the element 10 is in
  block 1, cell 15, and the element 20 wraps to block 0, cell 0.
\<close>

definition wrapped_pair :: "int deque" where
  "wrapped_pair =
     \<lparr>numCells = 16, numBlocks = 2, numElements = 2, iaFront = 31,
      data = Some [Block (Some 20 # replicate 15 None),
                   Block (replicate 15 None @ [Some 10])]\<rparr>"

text \<open>One block of 16 cells that holds the elements 10 and 20 in its cells 0 and 1.\<close>

definition front_pair :: "int deque" where
  "front_pair =
     \<lparr>numCells = 16, numBlocks = 1, numElements = 2, iaFront = 0,
      data = Some [Block (Some 10 # Some 20 # replicate 14 None)]\<rparr>"

text \<open>One block of 16 cells that holds the single element 7 in its cell 5.\<close>

definition single_seven :: "int deque" where
  "single_seven =
     \<lparr>numCells = 16, numBlocks = 1, numElements = 1, iaFront = 5,
      data = Some [Block (replicate 5 None @ [Some 7] @ replicate 10 None)]\<rparr>"

text \<open>One allocated block of 16 raw cells and no element.\<close>

definition empty_one_block :: "int deque" where
  "empty_one_block =
     \<lparr>numCells = 16, numBlocks = 1, numElements = 0, iaFront = 0,
      data = Some [Block (replicate 16 None)]\<rparr>"

text \<open>One block of 16 cells, all of them occupied.\<close>

definition full_block :: "int deque" where
  "full_block =
     \<lparr>numCells = 16, numBlocks = 1, numElements = 16, iaFront = 0,
      data = Some [Block (map Some [0, 1, 2, 3, 4, 5, 6, 7, 8, 9, 10, 11, 12, 13, 14, 15])]\<rparr>"

text \<open>The converting constructor of \<^verbatim>\<open>int\<close> from \<^verbatim>\<open>int\<close>.\<close>

definition int_of_int :: "cint \<Rightarrow> int" where
  "int_of_int x = sint x"

subsection \<open>Reading and writing by absolute cell\<close>

text \<open>
  What a read of the absolute cell \<open>a\<close> yields, what a write to it leaves, and the block
  array with the pointer of block \<open>b\<close> set to null. The lemmas below reduce the
  accessors and mutators of the code to these three functions.
\<close>

definition read_abs :: "'a deque \<Rightarrow> nat \<Rightarrow> error + 'a" where
  "read_abs s a =
     (case blocks_of s ! (a div unat (numCells s)) of
        Null \<Rightarrow> Inl NullDeref
      | Wild \<Rightarrow> Inl WildDeref
      | Block cs \<Rightarrow>
          (case cs ! (a mod unat (numCells s)) of None \<Rightarrow> Inl NoObject | Some v \<Rightarrow> Inr v))"

definition write_abs :: "'a deque \<Rightarrow> nat \<Rightarrow> 'a option \<Rightarrow> 'a deque" where
  "write_abs s a x =
     s\<lparr>data := Some ((blocks_of s)[a div unat (numCells s) :=
         (case blocks_of s ! (a div unat (numCells s)) of
            Block cs \<Rightarrow> Block (cs[a mod unat (numCells s) := x])
          | p \<Rightarrow> p)])\<rparr>"

definition null_abs :: "'a deque \<Rightarrow> nat \<Rightarrow> 'a deque" where
  "null_abs s b = s\<lparr>data := Some ((blocks_of s)[b := Null])\<rparr>"

text \<open>The part of \<open>layout_ok\<close> that does not mention the elements.\<close>

definition geom_ok :: "'a deque \<Rightarrow> bool" where
  "geom_ok s \<longleftrightarrow>
     0 < total_cells s \<and>
     total_cells s < 2147483648 \<and>
     0 \<le> sint (iaFront s) \<and>
     data s \<noteq> None \<and>
     length (blocks_of s) = unat (numBlocks s) \<and>
     (\<forall>p \<in> set (blocks_of s). block_ok (unat (numCells s)) p)"

section \<open>Lemmas\<close>

subsection \<open>Machine arithmetic\<close>

lemma p31: "(2::int) ^ (LENGTH(32) - Suc 0) = 2147483648" by simp

lemma sint32_ge: "- 2147483648 \<le> sint (x::cint)"
  using sint_greater_eq [of x] unfolding p31 .

lemma sint32_lt: "sint (x::cint) < 2147483648"
  using sint_less [of x] unfolding p31 .

lemma sint_of_nat32: "k < 2147483648 \<Longrightarrow> sint (of_nat k :: cint) = int k"
proof -
  assume a: "k < 2147483648"
  have "sint (of_nat k :: cint) = signed_take_bit (LENGTH(32) - Suc 0) (int k)"
    by (simp only: signed_of_nat of_int_eq_id id_apply)
  also have "\<dots> = int k"
    using a by (intro signed_take_bit_int_eq_self) simp_all
  finally show ?thesis .
qed

lemma scast_nonneg: "0 \<le> sint (x::cint) \<Longrightarrow> unat (scast x :: size_t) = nat (sint x)"
proof -
  assume a: "0 \<le> sint x"
  have b: "sint x < 2147483648" by (rule sint32_lt)
  have c: "sint x mod 2 ^ LENGTH(64) = sint x" using a b by (simp add: mod_pos_pos_trivial)
  have "uint (word_of_int (sint x) :: size_t) = sint x mod 2 ^ LENGTH(64)"
    by (rule uint_word_of_int)
  then have "uint (scast x :: size_t) = sint x"
    unfolding c by (simp only: scast_eq)
  then have "nat (uint (scast x :: size_t)) = nat (sint x)" by (rule arg_cong)
  then show ?thesis by (simp only: nat_uint_eq)
qed

lemma scast_of_nat32: "k < 2147483648 \<Longrightarrow> unat (scast (of_nat k :: cint) :: size_t) = k"
  using scast_nonneg [of "of_nat k"] by (simp only: sint_of_nat32 of_nat_0_le_iff nat_int)

lemma ucast_of_unat: "(ucast (x::size_t) :: cint) = of_nat (unat x)"
  by simp

lemma unat_mult64:
  "unat (a::size_t) * unat b < 2147483648 \<Longrightarrow> unat (a * b) = unat a * unat b"
proof -
  assume "unat a * unat b < 2147483648"
  then have "unat a * unat b < 2 ^ LENGTH(64)" by simp
  then show ?thesis by (rule unat_mult_lem [THEN iffD1])
qed

text \<open>addition of a small index to the front offset\<close>
lemma int_add_front:
  assumes "0 \<le> sint (f::cint)" "nat (sint f) + i < 2147483648"
  shows "int_add f (of_nat i) = Inr (f + of_nat i)"
    and "sint (f + of_nat i) = sint f + int i"
proof -
  have i: "sint (of_nat i :: cint) = int i" using assms by (intro sint_of_nat32) linarith
  have r: "- 2147483648 \<le> sint f + int i" "sint f + int i < 2147483648" using assms by linarith+
  show "int_add f (of_nat i) = Inr (f + of_nat i)"
    unfolding int_add_def i using r by simp
  have "sint (f + of_nat i) = signed_take_bit (LENGTH(32) - Suc 0) (sint f + sint (of_nat i :: cint))"
    by (simp only: sint_word_ariths One_nat_def)
  also have "\<dots> = sint f + int i"
    unfolding i using r by (intro signed_take_bit_int_eq_self) simp_all
  finally show "sint (f + of_nat i) = sint f + int i" .
qed

lemma total_cells_word:
  "total_cells s < 2147483648 \<Longrightarrow> unat (numCells s * numBlocks s) = total_cells s"
  "total_cells s < 2147483648 \<Longrightarrow> unat (numBlocks s * numCells s) = total_cells s"
  unfolding total_cells_def by (simp_all add: unat_mult64 mult.commute)

lemma iaFromID_nat:
  assumes "0 < total_cells s" "total_cells s < 2147483648"
    and "0 \<le> sint (iaFront s)" "front_offset s + i < 2147483648"
  shows "iaFromID s (of_nat i) = Inr (of_nat (abs_cell s i))"
proof -
  have f: "nat (sint (iaFront s)) + i < 2147483648" using assms(4) by (simp add: front_offset_def)
  note a = int_add_front [OF assms(3) f]
  have nn: "0 \<le> sint (iaFront s + of_nat i)" unfolding a(2) using assms(3) by simp
  have x: "unat (scast (iaFront s + of_nat i) :: size_t) = front_offset s + i"
    unfolding scast_nonneg [OF nn] a(2) front_offset_def using assms(3) by (simp add: nat_add_distrib)
  have p: "unat (numCells s * numBlocks s) = total_cells s" by (rule total_cells_word(1) [OF assms(2)])
  have nz: "numCells s * numBlocks s \<noteq> 0"
    using p assms(1) by (metis unat_0 less_numeral_extra(3))
  have "unat ((scast (iaFront s + of_nat i) :: size_t) mod (numCells s * numBlocks s))
          = abs_cell s i"
    unfolding unat_mod x p abs_cell_def ..
  then show ?thesis
    unfolding iaFromID_def a(1) using nz by (simp only: sum.case if_False ucast_of_unat)
qed

subsection \<open>Index translation by natural numbers\<close>

lemma abs_cell_less: "0 < total_cells s \<Longrightarrow> abs_cell s i < total_cells s"
  by (simp add: abs_cell_def)

lemma numCells_pos: "0 < total_cells s \<Longrightarrow> 0 < unat (numCells s)"
  by (simp add: total_cells_def)

lemma numCells_nz: "0 < total_cells s \<Longrightarrow> numCells s \<noteq> 0"
  using numCells_pos [of s] by (metis unat_0 less_numeral_extra(3))

lemma div_cells_less:
  "a < total_cells s \<Longrightarrow> a div unat (numCells s) < unat (numBlocks s)"
  unfolding total_cells_def by (simp add: less_mult_imp_div_less)

text \<open>division and remainder of a small cell number by numCells, on size_t\<close>
lemma cell_div_mod_word:
  assumes "0 < total_cells s" "a < 2147483648"
  shows "numCells s \<noteq> 0"
    and "(ucast ((scast (of_nat a :: cint) :: size_t) div numCells s) :: cint)
           = of_nat (a div unat (numCells s))"
    and "(ucast ((scast (of_nat a :: cint) :: size_t) mod numCells s) :: cint)
           = of_nat (a mod unat (numCells s))"
proof -
  show "numCells s \<noteq> 0" by (rule numCells_nz [OF assms(1)])
  have x: "unat (scast (of_nat a :: cint) :: size_t) = a" by (rule scast_of_nat32 [OF assms(2)])
  show "(ucast ((scast (of_nat a :: cint) :: size_t) div numCells s) :: cint)
           = of_nat (a div unat (numCells s))"
    unfolding ucast_of_unat unat_div x ..
  show "(ucast ((scast (of_nat a :: cint) :: size_t) mod numCells s) :: cint)
           = of_nat (a mod unat (numCells s))"
    unfolding ucast_of_unat unat_mod x ..
qed

lemma ibFromID_nat:
  assumes "0 < total_cells s" "total_cells s < 2147483648"
    and "0 \<le> sint (iaFront s)" "front_offset s + i < 2147483648"
  shows "ibFromID s (of_nat i) = Inr (of_nat (abs_cell s i div unat (numCells s)))"
proof -
  have a: "abs_cell s i < 2147483648" using abs_cell_less [OF assms(1), of i] assms(2) by simp
  note c = cell_div_mod_word [OF assms(1) a]
  show ?thesis
    unfolding ibFromID_def iaFromID_nat [OF assms] using c(1)
    by (simp only: sum.case if_False c(2))
qed

lemma icFromID_nat:
  assumes "0 < total_cells s" "total_cells s < 2147483648"
    and "0 \<le> sint (iaFront s)" "front_offset s + i < 2147483648"
  shows "icFromID s (of_nat i) = Inr (of_nat (abs_cell s i mod unat (numCells s)))"
proof -
  have a: "abs_cell s i < 2147483648" using abs_cell_less [OF assms(1), of i] assms(2) by simp
  note c = cell_div_mod_word [OF assms(1) a]
  show ?thesis
    unfolding icFromID_def iaFromID_nat [OF assms] using c(1)
    by (simp only: sum.case if_False c(3))
qed

lemma arr_load_nat:
  "b < length bs \<Longrightarrow> b < 2147483648 \<Longrightarrow> arr_load bs (of_nat b) = Inr (bs ! b)"
  unfolding arr_load_def by (simp add: sint_of_nat32)

lemma arr_store_nat:
  "b < length bs \<Longrightarrow> b < 2147483648 \<Longrightarrow> arr_store bs (of_nat b) p = Inr (bs[b := p])"
  unfolding arr_store_def by (simp add: sint_of_nat32)

lemma geom_blocks: "geom_ok s \<Longrightarrow> data s = Some (blocks_of s)"
  by (auto simp: geom_ok_def blocks_of_def split: option.splits)

lemma geom_block_ok:
  "geom_ok s \<Longrightarrow> a < total_cells s \<Longrightarrow> block_ok (unat (numCells s)) (blocks_of s ! (a div unat (numCells s)))"
  using div_cells_less [of a s] by (simp add: geom_ok_def)

lemma load_block_nat:
  assumes "geom_ok s" "a < total_cells s"
  shows "load_block s (of_nat (a div unat (numCells s))) = Inr (blocks_of s ! (a div unat (numCells s)))"
proof -
  have b: "a div unat (numCells s) < length (blocks_of s)"
    using div_cells_less [OF assms(2)] assms(1) by (simp add: geom_ok_def)
  have "length (blocks_of s) < 2147483648"
    using assms(1) by (auto simp: geom_ok_def total_cells_def intro: le_less_trans [rotated])
  then have c: "a div unat (numCells s) < 2147483648" using b by linarith
  show ?thesis
    unfolding load_block_def geom_blocks [OF assms(1)] option.case by (rule arr_load_nat [OF b c])
qed

subsection \<open>Accessors and mutators by absolute cell\<close>

lemma read_cell_nat:
  assumes "block_ok n p" "c < n" "n < 2147483648"
  shows "read_cell p (of_nat c) =
           (case p of Null \<Rightarrow> Inl NullDeref | Wild \<Rightarrow> Inl WildDeref
            | Block cs \<Rightarrow> (case cs ! c of None \<Rightarrow> Inl NoObject | Some v \<Rightarrow> Inr v))"
proof -
  have "c < 2147483648" using assms by linarith
  then have "sint (of_nat c :: cint) = int c" by (rule sint_of_nat32)
  then show ?thesis using assms by (cases p) (auto simp: read_cell_def block_ok_def)
qed

lemma write_cell_nat:
  assumes "block_ok n p" "c < n" "n < 2147483648"
  shows "write_cell p (of_nat c) x =
           (case p of Null \<Rightarrow> Inl NullDeref | Wild \<Rightarrow> Inl WildDeref
            | Block cs \<Rightarrow> Inr (Block (cs[c := x])))"
proof -
  have "c < 2147483648" using assms by linarith
  then have "sint (of_nat c :: cint) = int c" by (rule sint_of_nat32)
  then show ?thesis using assms by (cases p) (auto simp: write_cell_def block_ok_def)
qed

lemma numCells_small: "geom_ok s \<Longrightarrow> unat (numCells s) < 2147483648"
proof -
  assume g: "geom_ok s"
  then have "0 < unat (numBlocks s)" by (simp add: geom_ok_def total_cells_def)
  then have "unat (numCells s) \<le> total_cells s" by (simp add: total_cells_def)
  then show ?thesis using g by (simp add: geom_ok_def)
qed

lemma geom_total: "geom_ok s \<Longrightarrow> 0 < total_cells s" "geom_ok s \<Longrightarrow> total_cells s < 2147483648"
  "geom_ok s \<Longrightarrow> 0 \<le> sint (iaFront s)"
  by (simp_all add: geom_ok_def)

lemma op_index_nat:
  assumes "geom_ok s" "front_offset s + i < 2147483648"
  shows "op_index s (of_nat i) = read_abs s (abs_cell s i)"
proof -
  note g = geom_total [OF assms(1)]
  have a: "abs_cell s i < total_cells s" by (rule abs_cell_less [OF g(1)])
  have c: "abs_cell s i mod unat (numCells s) < unat (numCells s)"
    using numCells_pos [OF g(1)] by simp
  show ?thesis
    unfolding op_index_def ibFromID_nat [OF g assms(2)] icFromID_nat [OF g assms(2)]
      load_block_nat [OF assms(1) a] sum.case
      read_cell_nat [OF geom_block_ok [OF assms(1) a] c numCells_small [OF assms(1)]]
      read_abs_def ..
qed

lemma store_block_nat:
  assumes "geom_ok s" "b < unat (numBlocks s)"
  shows "store_block s (of_nat b) p = Inr (s\<lparr>data := Some ((blocks_of s)[b := p])\<rparr>)"
proof -
  have l: "b < length (blocks_of s)" using assms by (simp add: geom_ok_def)
  have "length (blocks_of s) < 2147483648"
    using assms(1) by (auto simp: geom_ok_def total_cells_def intro: le_less_trans [rotated])
  then have c: "b < 2147483648" using l by linarith
  show ?thesis
    unfolding store_block_def geom_blocks [OF assms(1)] option.case arr_store_nat [OF l c] sum.case ..
qed

lemma put_slot_nat:
  assumes "geom_ok s" "a < total_cells s" "blocks_of s ! (a div unat (numCells s)) = Block cs"
  shows "put_slot s (of_nat (a div unat (numCells s))) (of_nat (a mod unat (numCells s))) x
           = Inr (write_abs s a x)"
proof -
  have c: "a mod unat (numCells s) < unat (numCells s)"
    using numCells_pos [OF geom_total(1) [OF assms(1)]] by simp
  have w: "write_cell (blocks_of s ! (a div unat (numCells s))) (of_nat (a mod unat (numCells s))) x
            = Inr (Block (cs[a mod unat (numCells s) := x]))"
    unfolding write_cell_nat [OF geom_block_ok [OF assms(1,2)] c numCells_small [OF assms(1)]]
    by (simp add: assms(3))
  have "put_slot s (of_nat (a div unat (numCells s))) (of_nat (a mod unat (numCells s))) x
          = Inr (s\<lparr>data := Some ((blocks_of s)[a div unat (numCells s) :=
                     Block (cs[a mod unat (numCells s) := x])])\<rparr>)"
    unfolding put_slot_def load_block_nat [OF assms(1,2)] sum.case w
      store_block_nat [OF assms(1) div_cells_less [OF assms(2)]] ..
  then show ?thesis by (simp add: write_abs_def assms(3))
qed

lemma put_slot_null:
  assumes "geom_ok s" "a < total_cells s" "blocks_of s ! (a div unat (numCells s)) = Null"
  shows "put_slot s (of_nat (a div unat (numCells s))) (of_nat (a mod unat (numCells s))) x
           = Inl NullDeref"
proof -
  have c: "a mod unat (numCells s) < unat (numCells s)"
    using numCells_pos [OF geom_total(1) [OF assms(1)]] by simp
  have w: "write_cell (blocks_of s ! (a div unat (numCells s))) (of_nat (a mod unat (numCells s))) x
            = Inl NullDeref"
    unfolding write_cell_nat [OF geom_block_ok [OF assms(1,2)] c numCells_small [OF assms(1)]]
    by (simp add: assms(3))
  show ?thesis
    unfolding put_slot_def load_block_nat [OF assms(1,2)] sum.case w ..
qed

lemma destroy_at_nat:
  assumes "geom_ok s" "front_offset s + i < 2147483648"
    and "blocks_of s ! (abs_cell s i div unat (numCells s)) = Block cs"
  shows "destroy_at s (of_nat i) = Inr (write_abs s (abs_cell s i) None)"
proof -
  note g = geom_total [OF assms(1)]
  have a: "abs_cell s i < total_cells s" by (rule abs_cell_less [OF g(1)])
  show ?thesis
    unfolding destroy_at_def ibFromID_nat [OF g assms(2)] icFromID_nat [OF g assms(2)] sum.case
    by (rule put_slot_nat [OF assms(1) a assms(3)])
qed

lemma op_index_assign_nat:
  assumes "geom_ok s" "front_offset s + i < 2147483648"
    and "blocks_of s ! (abs_cell s i div unat (numCells s)) = Block cs"
  shows "op_index_assign s (of_nat i) v = Inr (write_abs s (abs_cell s i) (Some v))"
proof -
  note g = geom_total [OF assms(1)]
  have a: "abs_cell s i < total_cells s" by (rule abs_cell_less [OF g(1)])
  show ?thesis
    unfolding op_index_assign_def ibFromID_nat [OF g assms(2)] icFromID_nat [OF g assms(2)] sum.case
    by (rule put_slot_nat [OF assms(1) a assms(3)])
qed

text \<open>fields and geometry after a write or a nulling\<close>

lemma write_abs_fields [simp]:
  "numCells (write_abs s a x) = numCells s" "numBlocks (write_abs s a x) = numBlocks s"
  "numElements (write_abs s a x) = numElements s" "iaFront (write_abs s a x) = iaFront s"
  "total_cells (write_abs s a x) = total_cells s" "front_offset (write_abs s a x) = front_offset s"
  "abs_cell (write_abs s a x) i = abs_cell s i"
  by (simp_all add: write_abs_def total_cells_def front_offset_def abs_cell_def)

lemma null_abs_fields [simp]:
  "numCells (null_abs s b) = numCells s" "numBlocks (null_abs s b) = numBlocks s"
  "numElements (null_abs s b) = numElements s" "iaFront (null_abs s b) = iaFront s"
  "total_cells (null_abs s b) = total_cells s" "front_offset (null_abs s b) = front_offset s"
  "abs_cell (null_abs s b) i = abs_cell s i"
  by (simp_all add: null_abs_def total_cells_def front_offset_def abs_cell_def)

lemma blocks_write_abs:
  "blocks_of (write_abs s a x) = (blocks_of s)[a div unat (numCells s) :=
         (case blocks_of s ! (a div unat (numCells s)) of
            Block cs \<Rightarrow> Block (cs[a mod unat (numCells s) := x])
          | p \<Rightarrow> p)]"
  by (simp add: write_abs_def blocks_of_def)

lemma blocks_null_abs: "blocks_of (null_abs s b) = (blocks_of s)[b := Null]"
  by (simp add: null_abs_def blocks_of_def)

lemma block_ok_update:
  assumes "\<forall>p \<in> set bs. block_ok n p" "block_ok n q"
  shows "\<forall>p \<in> set (bs[b := q]). block_ok n p"
  using assms set_update_subset_insert [of bs b q] by auto

lemma geom_write_abs: "geom_ok s \<Longrightarrow> geom_ok (write_abs s a x)"
proof -
  assume g: "geom_ok s"
  let ?b = "a div unat (numCells s)"
  let ?q = "case blocks_of s ! ?b of Block cs \<Rightarrow> Block (cs[a mod unat (numCells s) := x]) | p \<Rightarrow> p"
  have all: "\<forall>p \<in> set (blocks_of s). block_ok (unat (numCells s)) p" using g by (simp add: geom_ok_def)
  show ?thesis
  proof (cases "?b < length (blocks_of s)")
    case True
    then have "block_ok (unat (numCells s)) (blocks_of s ! ?b)" using all by simp
    then have "block_ok (unat (numCells s)) ?q" by (auto simp: block_ok_def split: ptr.splits)
    then have "\<forall>p \<in> set ((blocks_of s)[?b := ?q]). block_ok (unat (numCells s)) p"
      by (rule block_ok_update [OF all])
    then show ?thesis using g
      unfolding geom_ok_def write_abs_fields blocks_write_abs by (simp add: write_abs_def)
  next
    case False
    then have "(blocks_of s)[?b := ?q] = blocks_of s" by (intro list_update_beyond) simp
    then show ?thesis using g
      unfolding geom_ok_def write_abs_fields blocks_write_abs by (simp add: write_abs_def)
  qed
qed

lemma geom_null_abs: "geom_ok s \<Longrightarrow> geom_ok (null_abs s b)"
proof -
  assume g: "geom_ok s"
  have all: "\<forall>p \<in> set (blocks_of s). block_ok (unat (numCells s)) p" using g by (simp add: geom_ok_def)
  have "\<forall>p \<in> set ((blocks_of s)[b := Null]). block_ok (unat (numCells s)) p"
    by (rule block_ok_update [OF all]) (simp add: block_ok_def)
  then show ?thesis using g
    unfolding geom_ok_def null_abs_fields blocks_null_abs by (simp add: null_abs_def)
qed

subsection \<open>Frame lemmas\<close>

lemma read_write_other:
  assumes "a' \<noteq> a" "0 < unat (numCells s)"
  shows "read_abs (write_abs s a x) a' = read_abs s a'"
proof (cases "a' div unat (numCells s) = a div unat (numCells s)")
  case True
  then have m: "a' mod unat (numCells s) \<noteq> a mod unat (numCells s)"
    using assms(1) by (metis div_mult_mod_eq)
  show ?thesis
  proof (cases "a div unat (numCells s) < length (blocks_of s)")
    case l: True
    show ?thesis
      unfolding read_abs_def write_abs_fields blocks_write_abs True
      using l m by (simp split: ptr.splits)
  next
    case False
    then show ?thesis
      unfolding read_abs_def write_abs_fields blocks_write_abs True
      by (simp add: list_update_beyond)
  qed
next
  case False
  then show ?thesis
    unfolding read_abs_def write_abs_fields blocks_write_abs by simp
qed

lemma read_null_other:
  assumes "a' div unat (numCells s) \<noteq> b"
  shows "read_abs (null_abs s b) a' = read_abs s a'"
  unfolding read_abs_def null_abs_fields blocks_null_abs using assms by simp

lemma slot_write_other:
  assumes "a' \<noteq> a" "0 < unat (numCells s)"
  shows "slot_at (write_abs s a x) a' = slot_at s a'"
proof (cases "a' div unat (numCells s) = a div unat (numCells s)")
  case True
  then have m: "a' mod unat (numCells s) \<noteq> a mod unat (numCells s)"
    using assms(1) by (metis div_mult_mod_eq)
  show ?thesis
  proof (cases "a div unat (numCells s) < length (blocks_of s)")
    case l: True
    show ?thesis
      unfolding slot_at_def write_abs_fields blocks_write_abs True
      using l m by (simp split: ptr.splits)
  next
    case False
    then show ?thesis
      unfolding slot_at_def write_abs_fields blocks_write_abs True
      by (simp add: list_update_beyond)
  qed
next
  case False
  then show ?thesis
    unfolding slot_at_def write_abs_fields blocks_write_abs by simp
qed

lemma slot_null_other:
  assumes "a' div unat (numCells s) \<noteq> b"
  shows "slot_at (null_abs s b) a' = slot_at s a'"
  unfolding slot_at_def null_abs_fields blocks_null_abs using assms by simp

lemma slot_write_same:
  assumes "geom_ok s" "a < total_cells s"
  shows "slot_at (write_abs s a None) a = None"
proof -
  have l: "a div unat (numCells s) < length (blocks_of s)"
    using div_cells_less [OF assms(2)] assms(1) by (simp add: geom_ok_def)
  have c: "a mod unat (numCells s) < unat (numCells s)"
    using numCells_pos [OF geom_total(1) [OF assms(1)]] by simp
  show ?thesis
    using geom_block_ok [OF assms] l c
    unfolding slot_at_def write_abs_fields blocks_write_abs
    by (auto simp: block_ok_def split: ptr.splits)
qed

lemma slot_null_same:
  assumes "geom_ok s" "b < unat (numBlocks s)" "a div unat (numCells s) = b"
  shows "slot_at (null_abs s b) a = None"
proof -
  have l: "b < length (blocks_of s)" using assms by (simp add: geom_ok_def)
  show ?thesis
    unfolding slot_at_def null_abs_fields blocks_null_abs using l assms(3) by simp
qed

lemma slot_live_block:
  "slot_at s a \<noteq> None \<Longrightarrow> \<exists>cs. blocks_of s ! (a div unat (numCells s)) = Block cs"
  by (auto simp: slot_at_def split: ptr.splits)

lemma read_abs_slot:
  "slot_at s a = Some v \<Longrightarrow> read_abs s a = Inr v"
  by (auto simp: slot_at_def read_abs_def split: ptr.splits)

lemma read_abs_dead:
  "slot_at s a = None \<Longrightarrow> read_abs s a \<in> {Inl NullDeref, Inl WildDeref, Inl NoObject}"
  by (auto simp: slot_at_def read_abs_def split: ptr.splits option.splits)

subsection \<open>Arithmetic of the circular mapping\<close>

lemma mod_wrap_once:
  fixes x T :: nat
  assumes "T \<le> x" "x < 2 * T"
  shows "x mod T = x - T"
proof -
  have "x mod T = (x - T) mod T" using assms(1) by (simp add: le_mod_geq)
  also have "\<dots> = x - T" using assms by simp
  finally show ?thesis .
qed

lemma circ_distinct:
  fixes F T i j :: nat
  assumes "i < j" "j < n" "n \<le> T"
  shows "(F + i) mod T \<noteq> (F + j) mod T"
proof
  assume e: "(F + i) mod T = (F + j) mod T"
  have l: "F + i \<le> F + j" using assms(1) by simp
  have "T dvd (F + j) - (F + i)"
    by (rule mod_eq_dvd_iff_nat [OF l, THEN iffD1]) (rule e [symmetric])
  then have "T dvd j - i" by simp
  moreover have "0 < j - i" "j - i < T" using assms by linarith+
  ultimately show False by (simp add: nat_dvd_not_less)
qed

lemma circ_block:
  fixes F T C i n :: nat
  assumes C: "0 < C" and i: "i + 1 < n" and n: "n \<le> T"
    and z: "((F + (n - 1)) mod T) mod C = 0"
    and b: "((F + i) mod T) div C = ((F + (n - 1)) mod T) div C"
  shows "(F mod T) div C = ((F + (n - 1)) mod T) div C"
proof -
  define ai where "ai = (F + i) mod T"
  define al where "al = (F + (n - 1)) mod T"
  define d where "d = n - 1 - i"
  define q where "q = al div C"
  have T: "0 < T" using i n by linarith
  have d: "0 < d" "i + d = n - 1" "d < T" using i n by (simp_all add: d_def)
  have aiT: "ai < T" using T by (simp add: ai_def)
  have "al = (F + i + d) mod T" using d(2) by (simp add: al_def add.assoc)
  also have "\<dots> = (ai + d) mod T" unfolding ai_def by (simp add: mod_add_left_eq)
  finally have al: "al = (ai + d) mod T" .
  have "al mod C = 0" using z by (simp only: al_def)
  then have alq: "al = C * q" unfolding q_def by (metis mult_div_mod_eq add.right_neutral)
  have "ai div C = q" using b by (simp add: ai_def al_def q_def)
  then have aiq: "C * q \<le> ai" "ai < C * q + C"
    using C by (metis mult.commute div_times_less_eq_dividend,
                metis C dividend_less_times_div mult.commute add.commute)
  have le: "al \<le> ai" using alq aiq(1) by simp
  have wrap: "T \<le> ai + d"
  proof (rule ccontr)
    assume "\<not> T \<le> ai + d"
    then have "al = ai + d" using al by simp
    then show False using le d(1) by simp
  qed
  have "ai + d < 2 * T" using aiT d(3) by simp
  then have al2: "al = ai + d - T" using al wrap by (simp add: mod_wrap_once)
  have gap: "al + i + 1 \<le> ai" using al2 wrap d(2) n i by linarith
  have "F mod T = (F + i + (T - i)) mod T" using i n by simp
  also have "\<dots> = (ai + (T - i)) mod T" unfolding ai_def by (simp add: mod_add_left_eq)
  also have "\<dots> = ai + (T - i) - T"
    using gap aiT i n by (intro mod_wrap_once) linarith+
  also have "\<dots> = ai - i" using i n by simp
  finally have a0: "F mod T = ai - i" .
  have "C * q \<le> ai - i" "ai - i < C * Suc q" using gap alq aiq(2) by simp_all
  then have "(ai - i) div C = q" by (intro div_nat_eqI) (simp_all add: mult.commute)
  then show ?thesis by (simp add: a0 q_def al_def)
qed

subsection \<open>Counters and field updates\<close>

lemma of_nat32_eq:
  assumes "a < 2147483648" "b < 2147483648"
  shows "(of_nat a :: cint) = of_nat b \<longleftrightarrow> a = b"
proof
  assume "(of_nat a :: cint) = of_nat b"
  then have "sint (of_nat a :: cint) = sint (of_nat b :: cint)" by (rule arg_cong)
  then show "a = b" unfolding sint_of_nat32 [OF assms(1)] sint_of_nat32 [OF assms(2)] by simp
qed simp

lemma of_nat32_eq_0:
  assumes "a < 2147483648"
  shows "(of_nat a :: cint) = 0 \<longleftrightarrow> a = 0"
  using of_nat32_eq [OF assms, of 0] by simp

lemma int_sub_one:
  assumes "0 < k" "k < 2147483648"
  shows "int_sub (of_nat k) 1 = Inr (of_nat (k - 1))"
proof -
  have s: "sint (of_nat k :: cint) = int k" by (rule sint_of_nat32 [OF assms(2)])
  have o: "sint (1 :: cint) = 1" by simp
  have e: "(of_nat k :: cint) - 1 = of_nat (k - 1)" using assms(1) by (simp add: of_nat_diff)
  show ?thesis unfolding int_sub_def s o e using assms by simp
qed

lemma int_add_one:
  assumes "k + 1 < 2147483648"
  shows "int_add (of_nat k) 1 = Inr (of_nat (k + 1))"
proof -
  have k: "k < 2147483648" using assms by simp
  have s: "sint (of_nat k :: cint) = int k" by (rule sint_of_nat32 [OF k])
  have o: "sint (1 :: cint) = 1" by simp
  show ?thesis unfolding int_add_def s o using assms by simp
qed

lemma ucast_numElements: "(ucast (numElements s) :: cint) = of_nat (unat (numElements s))"
  by (rule ucast_of_unat)

lemma numElements_update [simp]:
  "blocks_of (s\<lparr>numElements := k\<rparr>) = blocks_of s"
  "total_cells (s\<lparr>numElements := k\<rparr>) = total_cells s"
  "front_offset (s\<lparr>numElements := k\<rparr>) = front_offset s"
  "abs_cell (s\<lparr>numElements := k\<rparr>) i = abs_cell s i"
  "read_abs (s\<lparr>numElements := k\<rparr>) a = read_abs s a"
  "slot_at (s\<lparr>numElements := k\<rparr>) a = slot_at s a"
  "geom_ok (s\<lparr>numElements := k\<rparr>) = geom_ok s"
  by (simp_all add: blocks_of_def total_cells_def front_offset_def abs_cell_def read_abs_def
      slot_at_def geom_ok_def cong: ptr.case_cong)

lemma helpers_numElements [simp]:
  "iaFromID (s\<lparr>numElements := k\<rparr>) i = iaFromID s i"
  "ibFromID (s\<lparr>numElements := k\<rparr>) i = ibFromID s i"
  "icFromID (s\<lparr>numElements := k\<rparr>) i = icFromID s i"
  "ibFromID_h (s\<lparr>numElements := k\<rparr>) i = ibFromID_h s i"
  "icFromID_h (s\<lparr>numElements := k\<rparr>) i = icFromID_h s i"
  "load_block (s\<lparr>numElements := k\<rparr>) b = load_block s b"
  by (simp_all add: iaFromID_def ibFromID_def icFromID_def ibFromID_h_def icFromID_h_def
      load_block_def cong: sum.case_cong if_cong)

lemma op_index_numElements [simp]:
  "op_index (s\<lparr>numElements := k\<rparr>) i = op_index s i"
  "op_index_h (s\<lparr>numElements := k\<rparr>) i = op_index_h s i"
  by (simp_all add: op_index_def op_index_h_def cong: sum.case_cong)

lemma layout_geom: "layout_ok s \<Longrightarrow> numElements s \<noteq> 0 \<Longrightarrow> geom_ok s"
proof -
  assume l: "layout_ok s" and n: "numElements s \<noteq> 0"
  have "0 < unat (numElements s)" using n by (simp add: unat_gt_0)
  then have t: "0 < total_cells s" using l by (simp add: layout_ok_def)
  then have "numBlocks s \<noteq> 0" by (auto simp: total_cells_def)
  then have "data s \<noteq> None" using l by (auto simp: layout_ok_def)
  then show ?thesis using l t by (simp add: layout_ok_def geom_ok_def)
qed

lemma layout_live:
  "layout_ok s \<Longrightarrow> i < unat (numElements s) \<Longrightarrow> \<exists>v. slot_at s (abs_cell s i) = Some v"
  by (auto simp: layout_ok_def)

lemma layout_bounds:
  assumes "layout_ok s"
  shows "unat (numElements s) \<le> total_cells s" "total_cells s < 2147483648"
    "front_offset s + unat (numElements s) \<le> 2147483648"
  using assms by (simp_all add: layout_ok_def)

subsection \<open>\<^verbatim>\<open>pop_back\<close>\<close>

lemma abs_cell_distinct:
  assumes "i < j" "j < n" "n \<le> total_cells s"
  shows "abs_cell s i \<noteq> abs_cell s j"
  unfolding abs_cell_def by (rule circ_distinct [OF assms])

lemma abs_cell_0: "abs_cell s 0 = front_offset s mod total_cells s"
  by (simp add: abs_cell_def)

lemma back_block_unused_nat:
  assumes g: "geom_ok s" and n: "0 < n" "front_offset s + n \<le> 2147483648"
  shows "back_block_unused s (of_nat (n - 1)) =
           Inr (numElements s = 1 \<or>
                (abs_cell s (n - 1) mod unat (numCells s) = 0 \<and>
                 abs_cell s (n - 1) div unat (numCells s) \<noteq> abs_cell s 0 div unat (numCells s)))"
proof -
  note t = geom_total [OF g]
  have i: "front_offset s + (n - 1) < 2147483648" "front_offset s + 0 < 2147483648" using n by linarith+
  have a: "abs_cell s (n - 1) < 2147483648" "abs_cell s 0 < 2147483648"
    using abs_cell_less [OF t(1), of "n - 1"] abs_cell_less [OF t(1), of 0] t(2) by linarith+
  have m: "abs_cell s (n - 1) mod unat (numCells s) < 2147483648"
    using a(1) mod_less_eq_dividend [of "abs_cell s (n - 1)" "unat (numCells s)"] by linarith
  have d: "abs_cell s (n - 1) div unat (numCells s) < 2147483648"
      "abs_cell s 0 div unat (numCells s) < 2147483648"
    using a div_le_dividend [of "abs_cell s (n - 1)" "unat (numCells s)"]
      div_le_dividend [of "abs_cell s 0" "unat (numCells s)"] by linarith+
  have z: "ibFromID s 0 = Inr (of_nat (abs_cell s 0 div unat (numCells s)))"
    using ibFromID_nat [OF t i(2)] by simp
  show ?thesis
    unfolding back_block_unused_def icFromID_nat [OF t i(1)] ibFromID_nat [OF t i(1)] z sum.case
      of_nat32_eq_0 [OF m] of_nat32_eq [OF d]
    by simp
qed

text \<open>
  \<^verbatim>\<open>pop_back\<close> of \<^verbatim>\<open>src/unnamed/part_000\<close> on every non-empty state of the data
  model. The block pointer that it sets to null is the one of a block that holds no
  remaining element: the last element is in cell 0 of a block other than the block of
  the front.
\<close>

lemma pop_back_frame_nat:
  assumes l: "layout_ok s" and ne: "numElements s \<noteq> 0"
  shows "\<exists>s'. pop_back s = Inr s' \<and>
           iaFront s' = iaFront s \<and> numCells s' = numCells s \<and> numBlocks s' = numBlocks s \<and>
           numElements s' = numElements s - 1 \<and>
           slot_at s' (abs_cell s (unat (numElements s) - 1)) = None \<and>
           (\<forall>i < unat (numElements s) - 1. op_index s' (of_nat i) = op_index s (of_nat i))"
proof -
  let ?n = "unat (numElements s)"
  let ?C = "unat (numCells s)"
  let ?al = "abs_cell s (?n - 1)"
  note g = layout_geom [OF l ne]
  note t = geom_total [OF g]
  note b = layout_bounds [OF l]
  have n0: "0 < ?n" using ne by (simp add: unat_gt_0)
  have n31: "?n < 2147483648" using b by linarith
  have i: "front_offset s + (?n - 1) < 2147483648" using b n0 by linarith
  have al: "?al < total_cells s" by (rule abs_cell_less [OF t(1)])
  have pos: "0 < numElements s" using ne by (simp add: word_greater_zero_iff)
  have idr: "int_sub (ucast (numElements s)) 1 = Inr (of_nat (?n - 1))"
    unfolding ucast_numElements by (rule int_sub_one [OF n0 n31])
  obtain v where "slot_at s ?al = Some v" using layout_live [OF l, of "?n - 1"] n0 by auto
  then obtain cs where blk: "blocks_of s ! (?al div ?C) = Block cs"
    using slot_live_block [of s ?al] by auto
  define s1 where "s1 = write_abs s ?al None"
  have d: "destroy_at s (of_nat (?n - 1)) = Inr s1"
    unfolding s1_def by (rule destroy_at_nat [OF g i blk])
  have g1: "geom_ok s1" unfolding s1_def by (rule geom_write_abs [OF g])
  define c where "c \<longleftrightarrow> numElements s = 1 \<or>
      (?al mod ?C = 0 \<and> ?al div ?C \<noteq> abs_cell s 0 div ?C)"
  have bb: "back_block_unused s1 (of_nat (?n - 1)) = Inr c"
    using back_block_unused_nat [OF g1 n0, unfolded s1_def write_abs_fields, OF b(3)]
    unfolding s1_def c_def write_abs_fields .
  define s2 where "s2 = (if c then null_abs s1 (?al div ?C) else s1)"
  have ib1: "ibFromID s1 (of_nat (?n - 1)) = Inr (of_nat (?al div ?C))"
    using ibFromID_nat [OF geom_total [OF g1], of "?n - 1"] i
    unfolding s1_def write_abs_fields by simp
  have st: "store_block s1 (of_nat (?al div ?C)) Null = Inr (null_abs s1 (?al div ?C))"
    using store_block_nat [OF g1, of "?al div ?C" Null] div_cells_less [OF al]
    unfolding null_abs_def s1_def write_abs_fields by simp
  have step: "(if c then (case ibFromID s1 (of_nat (?n - 1)) of Inl e \<Rightarrow> Inl e
                           | Inr ib \<Rightarrow> store_block s1 ib Null) else Inr s1) = Inr s2"
    unfolding ib1 sum.case st s2_def by simp
  have pb: "pop_back s = Inr (s2\<lparr>numElements := numElements s2 - 1\<rparr>)"
    unfolding pop_back_def idr sum.case d bb step using pos by simp
  have f2: "iaFront s2 = iaFront s" "numCells s2 = numCells s" "numBlocks s2 = numBlocks s"
    "numElements s2 = numElements s"
    unfolding s2_def s1_def by simp_all
  have g2: "geom_ok s2" unfolding s2_def using g1 geom_null_abs [OF g1] by simp
  have dead: "slot_at s2 ?al = None"
  proof (cases c)
    case True
    have "slot_at (null_abs s1 (?al div ?C)) ?al = None"
      using slot_null_same [OF g1, of "?al div ?C" ?al] div_cells_less [OF al]
      unfolding s1_def write_abs_fields by simp
    then show ?thesis using True by (simp add: s2_def)
  next
    case False
    then show ?thesis unfolding s2_def s1_def using slot_write_same [OF g al] by simp
  qed
  have keep: "op_index s2 (of_nat i) = op_index s (of_nat i)" if "i < ?n - 1" for i
  proof -
    have ii: "front_offset s + i < 2147483648" using that b by linarith
    have ii2: "front_offset s2 + i < 2147483648"
      using ii unfolding front_offset_def f2 .
    have ac: "abs_cell s2 i = abs_cell s i"
      unfolding abs_cell_def front_offset_def total_cells_def f2 ..
    have ne_al: "abs_cell s i \<noteq> ?al"
      by (rule abs_cell_distinct [of i "?n - 1" ?n]) (use that n0 b in linarith)+
    have r1: "read_abs s1 (abs_cell s i) = read_abs s (abs_cell s i)"
      unfolding s1_def by (rule read_write_other [OF ne_al numCells_pos [OF t(1)]])
    have r2: "read_abs s2 (abs_cell s i) = read_abs s1 (abs_cell s i)"
    proof (cases c)
      case False
      then show ?thesis by (simp add: s2_def)
    next
      case True
      have n1: "numElements s \<noteq> 1"
      proof
        assume "numElements s = 1"
        then have "?n = 1" by simp
        then show False using that by simp
      qed
      then have cc: "?al mod ?C = 0" "?al div ?C \<noteq> abs_cell s 0 div ?C"
        using True by (simp_all add: c_def)
      have "abs_cell s i div ?C \<noteq> ?al div ?C"
      proof
        assume e: "abs_cell s i div ?C = ?al div ?C"
        have i1: "i + 1 < ?n" using that by simp
        have "abs_cell s 0 div ?C = ?al div ?C"
          unfolding abs_cell_0 unfolding abs_cell_def
          by (rule circ_block [OF numCells_pos [OF t(1)] i1 b(1) cc(1) [unfolded abs_cell_def]
                e [unfolded abs_cell_def]])
        then show False using cc(2) by simp
      qed
      then have "read_abs (null_abs s1 (?al div ?C)) (abs_cell s i) = read_abs s1 (abs_cell s i)"
        by (intro read_null_other) (simp add: s1_def)
      then show ?thesis using True by (simp add: s2_def)
    qed
    show ?thesis
      unfolding op_index_nat [OF g2 ii2] op_index_nat [OF g ii] ac r2 r1 ..
  qed
  show ?thesis
    unfolding pb using f2 dead keep by simp
qed

subsection \<open>\<^verbatim>\<open>pop_back\<close> of \<^verbatim>\<open>src/deque.h\<close>\<close>

lemma helpers_h_nat:
  assumes "0 < unat (numCells s)" "0 \<le> sint (iaFront s)" "front_offset s + i < 2147483648"
  shows "ibFromID_h s (of_nat i) = Inr (of_nat ((front_offset s + i) div unat (numCells s)))"
    and "icFromID_h s (of_nat i) = Inr (of_nat ((front_offset s + i) mod unat (numCells s)))"
proof -
  have f: "nat (sint (iaFront s)) + i < 2147483648" using assms(3) by (simp add: front_offset_def)
  note a = int_add_front [OF assms(2) f]
  have nn: "0 \<le> sint (iaFront s + of_nat i)" unfolding a(2) using assms(2) by simp
  have x: "unat (scast (iaFront s + of_nat i) :: size_t) = front_offset s + i"
    unfolding scast_nonneg [OF nn] a(2) front_offset_def using assms(2) by (simp add: nat_add_distrib)
  have nz: "numCells s \<noteq> 0" using assms(1) by (simp add: unat_gt_0)
  have d: "(ucast ((scast (iaFront s + of_nat i) :: size_t) div numCells s) :: cint)
             = of_nat ((front_offset s + i) div unat (numCells s))"
    unfolding ucast_of_unat unat_div x ..
  have m: "(ucast ((scast (iaFront s + of_nat i) :: size_t) mod numCells s) :: cint)
             = of_nat ((front_offset s + i) mod unat (numCells s))"
    unfolding ucast_of_unat unat_mod x ..
  show "ibFromID_h s (of_nat i) = Inr (of_nat ((front_offset s + i) div unat (numCells s)))"
    unfolding ibFromID_h_def a(1) using nz by (simp only: sum.case if_False d)
  show "icFromID_h s (of_nat i) = Inr (of_nat ((front_offset s + i) mod unat (numCells s)))"
    unfolding icFromID_h_def a(1) using nz by (simp only: sum.case if_False m)
qed

lemma op_index_h_nat:
  assumes "geom_ok s" "front_offset s + i < total_cells s"
  shows "op_index_h s (of_nat i) = read_abs s (front_offset s + i)"
proof -
  note g = geom_total [OF assms(1)]
  have i: "front_offset s + i < 2147483648" using assms(2) g(2) by linarith
  have c: "(front_offset s + i) mod unat (numCells s) < unat (numCells s)"
    using numCells_pos [OF g(1)] by simp
  note h = helpers_h_nat [OF numCells_pos [OF g(1)] g(3) i]
  show ?thesis
    unfolding op_index_h_def h load_block_nat [OF assms] sum.case
      read_cell_nat [OF geom_block_ok [OF assms] c numCells_small [OF assms(1)]]
      read_abs_def ..
qed

lemma abs_cell_unwrapped:
  "unwrapped s \<Longrightarrow> i < unat (numElements s) \<Longrightarrow> abs_cell s i = front_offset s + i"
  by (simp add: unwrapped_def abs_cell_def)

lemma pop_back_h_frame_nat:
  assumes l: "layout_ok s" and u: "unwrapped s" and ne: "numElements s \<noteq> 0"
  shows "\<exists>s'. pop_back_h s = Inr s' \<and>
           iaFront s' = iaFront s \<and> numCells s' = numCells s \<and> numBlocks s' = numBlocks s \<and>
           numElements s' = numElements s - 1 \<and>
           slot_at s' (abs_cell s (unat (numElements s) - 1)) = None \<and>
           (\<forall>i < unat (numElements s) - 1. op_index_h s' (of_nat i) = op_index_h s (of_nat i))"
proof -
  let ?n = "unat (numElements s)"
  let ?C = "unat (numCells s)"
  let ?al = "front_offset s + (?n - 1)"
  note g = layout_geom [OF l ne]
  note t = geom_total [OF g]
  note b = layout_bounds [OF l]
  have n0: "0 < ?n" using ne by (simp add: unat_gt_0)
  have al: "?al < total_cells s" using u n0 by (simp add: unwrapped_def)
  have ale: "abs_cell s (?n - 1) = ?al" using abs_cell_unwrapped [OF u, of "?n - 1"] n0 by simp
  have i: "?al < 2147483648" using al t(2) by linarith
  have pos: "0 < numElements s" using ne by (simp add: word_greater_zero_iff)
  have idr: "(ucast (numElements s - 1) :: cint) = of_nat (?n - 1)"
    unfolding ucast_of_unat unat_minus_one [OF ne] ..
  obtain v where "slot_at s (abs_cell s (?n - 1)) = Some v"
    using layout_live [OF l, of "?n - 1"] n0 by auto
  then have "slot_at s ?al \<noteq> None" unfolding ale by simp
  then obtain cs where blk: "blocks_of s ! (?al div ?C) = Block cs"
    using slot_live_block [of s ?al] by blast
  define s1 where "s1 = write_abs s ?al None"
  note h = helpers_h_nat [OF numCells_pos [OF t(1)] t(3) i]
  have pb: "pop_back_h s = Inr (s1\<lparr>numElements := numElements s1 - 1\<rparr>)"
    unfolding pop_back_h_def idr h sum.case put_slot_nat [OF g al blk] s1_def using pos by simp
  have g1: "geom_ok s1" unfolding s1_def by (rule geom_write_abs [OF g])
  have dead: "slot_at s1 (abs_cell s (?n - 1)) = None"
    unfolding ale s1_def by (rule slot_write_same [OF g al])
  have keep: "op_index_h s1 (of_nat i) = op_index_h s (of_nat i)" if "i < ?n - 1" for i
  proof -
    have ii: "front_offset s + i < total_cells s" using that al by linarith
    have ii1: "front_offset s1 + i < total_cells s1" using ii by (simp add: s1_def)
    have "read_abs s1 (front_offset s + i) = read_abs s (front_offset s + i)"
      unfolding s1_def by (rule read_write_other [OF _ numCells_pos [OF t(1)]]) (use that in simp)
    then show ?thesis
      unfolding op_index_h_nat [OF g1 ii1] op_index_h_nat [OF g ii] by (simp add: s1_def)
  qed
  show ?thesis
    unfolding pb using dead keep by (simp add: s1_def)
qed

subsection \<open>Agreement of the two variants of the helpers\<close>

lemma helpers_agree_nat:
  fixes ident :: cint
  assumes nb: "0 < unat (numBlocks s)"
    and nn: "0 \<le> sint (iaFront s) + sint ident"
    and lt: "sint (iaFront s) + sint ident < int (unat (numBlocks s) * unat (numCells s))"
    and rep: "unat (numBlocks s) * unat (numCells s) < 2 ^ 64"
  shows "ibFromID s ident = ibFromID_h s ident \<and> icFromID s ident = icFromID_h s ident"
proof (cases "sint (iaFront s) + sint ident < 2147483648")
  case False
  then have "int_add (iaFront s) ident = Inl SignedOverflow" by (simp add: int_add_def)
  then show ?thesis
    by (simp add: ibFromID_def icFromID_def iaFromID_def ibFromID_h_def icFromID_h_def)
next
  case True
  let ?x = "iaFront s + ident"
  let ?P = "numCells s * numBlocks s"
  have ia: "int_add (iaFront s) ident = Inr ?x" using True nn by (simp add: int_add_def)
  have sx: "sint ?x = sint (iaFront s) + sint ident"
  proof -
    have "sint ?x = signed_take_bit (LENGTH(32) - Suc 0) (sint (iaFront s) + sint ident)"
      by (simp only: sint_word_ariths One_nat_def)
    also have "\<dots> = sint (iaFront s) + sint ident"
      using True nn by (intro signed_take_bit_int_eq_self) simp_all
    finally show ?thesis .
  qed
  have x0: "0 \<le> sint ?x" using nn sx by simp
  have ux: "unat (scast ?x :: size_t) = nat (sint ?x)" by (rule scast_nonneg [OF x0])
  have "unat (numCells s) * unat (numBlocks s) < 2 ^ LENGTH(64)" using rep by (simp add: mult.commute)
  then have uP: "unat ?P = unat (numCells s) * unat (numBlocks s)"
    by (rule unat_mult_lem [THEN iffD1])
  have xP: "nat (sint ?x) < unat ?P" using lt sx x0 unfolding uP by (simp add: mult.commute nat_less_iff)
  then have Pnz: "?P \<noteq> 0" by (metis unat_0 not_less0)
  have Cnz: "numCells s \<noteq> 0" using Pnz by auto
  have "unat ((scast ?x :: size_t) mod ?P) = unat (scast ?x :: size_t)"
    unfolding unat_mod ux using xP by simp
  then have m: "(scast ?x :: size_t) mod ?P = scast ?x" by (simp only: word_unat_eq_iff)
  have rt: "(scast (ucast (scast ?x :: size_t) :: cint) :: size_t) = scast ?x"
  proof -
    have "(ucast (scast ?x :: size_t) :: cint) = ?x"
      by (rule bit_word_eqI) (auto simp: bit_ucast_iff bit_signed_iff)
    then show ?thesis by simp
  qed
  have a: "iaFromID s ident = Inr (ucast (scast ?x :: size_t))"
    unfolding iaFromID_def ia using Pnz by (simp only: sum.case if_False m)
  show ?thesis
    unfolding ibFromID_def icFromID_def a ibFromID_h_def icFromID_h_def ia sum.case rt
    by (rule conjI; rule refl)
qed

subsection \<open>The counted loop\<close>

lemma for_int_guard:
  assumes "k < 2147483648"
  shows "(scast (of_nat k :: cint) :: size_t) < bound \<longleftrightarrow> k < unat bound"
  unfolding word_less_nat_alt scast_of_nat32 [OF assms] ..

text \<open>
  An invariant rule for the counted loop: when the bound is in the range of \<^verbatim>\<open>int\<close>
  and every iteration \<open>j\<close> below the bound returns and carries the invariant from \<open>j\<close>
  to \<open>j + 1\<close>, the loop returns with the invariant at the bound.
\<close>

lemma for_int_rule:
  assumes b: "unat bound < 2147483648"
    and step: "\<And>j st. j < unat bound \<Longrightarrow> I j st \<Longrightarrow> \<exists>st'. body (of_nat j) st = Inr st' \<and> I (Suc j) st'"
  shows "k \<le> unat bound \<Longrightarrow> I k st \<Longrightarrow>
           \<exists>st'. for_int bound body (of_nat k) st = Inr st' \<and> I (unat bound) st'"
proof (induction "unat bound - k" arbitrary: k st)
  case 0
  then have k: "k = unat bound" by simp
  have "\<not> (scast (of_nat k :: cint) :: size_t) < bound"
    using for_int_guard [of k bound] b k by simp
  then have "for_int bound body (of_nat k) st = Inr st" by (subst for_int.simps) simp
  then show ?case using "0.prems"(2) k by simp
next
  case (Suc d)
  then have k: "k < unat bound" by linarith
  then have k31: "k < 2147483648" "k + 1 < 2147483648" using b by linarith+
  have gd: "(scast (of_nat k :: cint) :: size_t) < bound"
    using for_int_guard [OF k31(1), of bound] k by simp
  obtain st' where st': "body (of_nat k) st = Inr st'" "I (Suc k) st'"
    using step [OF k Suc.prems(2)] by blast
  have nx: "int_add (of_nat k) 1 = Inr (of_nat (Suc k))"
    using int_add_one [OF k31(2)] by simp
  have "for_int bound body (of_nat k) st = for_int bound body (of_nat (Suc k)) st'"
    by (subst for_int.simps) (simp add: gd st'(1) nx)
  moreover have "\<exists>st''. for_int bound body (of_nat (Suc k)) st' = Inr st'' \<and> I (unat bound) st''"
    by (rule Suc.hyps(1)) (use Suc.hyps(2) k st'(2) in simp_all)
  ultimately show ?case by simp
qed

lemma for_int_rule0:
  assumes "unat bound < 2147483648" "I 0 st"
    and "\<And>j st. j < unat bound \<Longrightarrow> I j st \<Longrightarrow> \<exists>st'. body (of_nat j) st = Inr st' \<and> I (Suc j) st'"
  shows "\<exists>st'. for_int bound body 0 st = Inr st' \<and> I (unat bound) st'"
  using for_int_rule [where bound = bound and I = I and body = body and k = 0 and st = st]
    assms by simp

subsection \<open>The steps of \<^verbatim>\<open>pop_front\<close>\<close>

lemma iaFront_update [simp]:
  "blocks_of (s\<lparr>iaFront := x\<rparr>) = blocks_of s"
  "total_cells (s\<lparr>iaFront := x\<rparr>) = total_cells s"
  "front_offset (s\<lparr>iaFront := x\<rparr>) = nat (sint x)"
  "read_abs (s\<lparr>iaFront := x\<rparr>) a = read_abs s a"
  "slot_at (s\<lparr>iaFront := x\<rparr>) a = slot_at s a"
  by (simp_all add: blocks_of_def total_cells_def front_offset_def read_abs_def slot_at_def
      cong: ptr.case_cong)

lemma geom_iaFront: "geom_ok s \<Longrightarrow> 0 \<le> sint x \<Longrightarrow> geom_ok (s\<lparr>iaFront := x\<rparr>)"
  unfolding geom_ok_def by simp

lemma null_abs_iaFront: "null_abs s b = s\<lparr>data := Some ((blocks_of s)[b := Null])\<rparr>"
  by (rule null_abs_def)

lemma block_after_write:
  assumes "geom_ok s" "a < total_cells s" "blocks_of s ! (a div unat (numCells s)) = Block cs"
  shows "blocks_of (write_abs s a x) ! (a div unat (numCells s))
           = Block (cs[a mod unat (numCells s) := x])"
proof -
  have "a div unat (numCells s) < length (blocks_of s)"
    using div_cells_less [OF assms(2)] assms(1) by (simp add: geom_ok_def)
  then show ?thesis unfolding blocks_write_abs by (simp add: assms(3))
qed

lemma block_empty_step_allocated:
  assumes g: "geom_ok s" and blk: "blocks_of s ! (abs_cell s 0 div unat (numCells s)) = Block cs"
  shows "block_empty_step s ic blockEmpty = Inr False"
proof -
  note t = geom_total [OF g]
  have a: "abs_cell s 0 < total_cells s" by (rule abs_cell_less [OF t(1)])
  have i: "front_offset s + 0 < 2147483648"
    using t(3) sint32_lt [of "iaFront s"] by (simp add: front_offset_def)
  have ib: "ibFromID s 0 = Inr (of_nat (abs_cell s 0 div unat (numCells s)))"
    using ibFromID_nat [OF t i] by simp
  show ?thesis
    unfolding block_empty_step_def ib sum.case load_block_nat [OF g a] blk
    by (simp add: slot_addr_not_null_def)
qed

lemma block_empty_loop:
  assumes g: "geom_ok s" and blk: "blocks_of s ! (abs_cell s 0 div unat (numCells s)) = Block cs"
  shows "for_int (numCells s) (block_empty_step s) 0 True = Inr False"
proof -
  have "\<exists>st'. for_int (numCells s) (block_empty_step s) 0 True = Inr st' \<and>
              st' = (unat (numCells s) = 0)"
    by (rule for_int_rule0 [where I = "\<lambda>j b. b = (j = 0)"])
       (auto simp: numCells_small [OF g] block_empty_step_allocated [OF g blk])
  then show ?thesis using numCells_pos [OF geom_total(1) [OF g]] by auto
qed

lemma step_front_up_nat:
  assumes t: "0 < total_cells s" and f: "0 \<le> sint (iaFront s)"
    and r: "front_offset s + 1 < 2147483648"
  shows "\<exists>y. step_front_up s = Inr (s\<lparr>iaFront := y\<rparr>) \<and> 0 \<le> sint y \<and>
             nat (sint y) = (if numBlocks s = 1 then (front_offset s + 1) mod unat (numCells s)
                             else front_offset s + 1)"
proof -
  have f1: "nat (sint (iaFront s)) + 1 < 2147483648" using r by (simp add: front_offset_def)
  note a = int_add_front [OF f f1, simplified]
  have nn: "0 \<le> sint (iaFront s + 1)" unfolding a(2) using f by simp
  have x: "unat (scast (iaFront s + 1) :: size_t) = front_offset s + 1"
    unfolding scast_nonneg [OF nn] a(2) front_offset_def using f by (simp add: nat_add_distrib)
  have nz: "numCells s \<noteq> 0" by (rule numCells_nz [OF t])
  show ?thesis
  proof (cases "numBlocks s = 1")
    case True
    let ?m = "(front_offset s + 1) mod unat (numCells s)"
    have y: "(ucast ((scast (iaFront s + 1) :: size_t) mod numCells s) :: cint) = of_nat ?m"
      unfolding ucast_of_unat unat_mod x ..
    have "unat (numCells s) = total_cells s" using True by (simp add: total_cells_def)
    then have "?m < unat (numCells s)" using t by simp
    moreover have "unat (numCells s) \<le> front_offset s + 1"
      if "\<not> ?m < 2147483648"
      using that r mod_less_eq_dividend [of "front_offset s + 1" "unat (numCells s)"] by linarith
    ultimately have m31: "?m < 2147483648"
      using r mod_less_eq_dividend [of "front_offset s + 1" "unat (numCells s)"] by linarith
    have sy: "sint (of_nat ?m :: cint) = int ?m" by (rule sint_of_nat32 [OF m31])
    have "step_front_up s = Inr (s\<lparr>iaFront := of_nat ?m\<rparr>)"
      unfolding step_front_up_def a(1) sum.case using True nz by (simp add: y)
    then show ?thesis using True sy by (intro exI [of _ "of_nat ?m"]) simp
  next
    case False
    have "step_front_up s = Inr (s\<lparr>iaFront := iaFront s + 1\<rparr>)"
      unfolding step_front_up_def a(1) sum.case using False by simp
    moreover have "nat (sint (iaFront s + 1)) = front_offset s + 1"
      unfolding a(2) front_offset_def using f by (simp add: nat_add_distrib)
    ultimately show ?thesis using False nn by (intro exI [of _ "iaFront s + 1"]) simp
  qed
qed

subsection \<open>\<^verbatim>\<open>pop_front\<close>\<close>

text \<open>
  What \<^verbatim>\<open>pop_front\<close> does on every non-empty state of the data model: it returns,
  destroys the logical first element and decrements \<open>numElements\<close>; the old logical
  index \<open>i + 1\<close> is the new logical index \<open>i\<close>. When at least two elements were
  present, the stored front offset is the old one plus one, reduced modulo \<open>numCells\<close>
  when \<open>numBlocks = 1\<close> and not reduced otherwise.
\<close>

lemma pop_front_nat:
  assumes l: "layout_ok s" and ne: "numElements s \<noteq> 0"
  shows "\<exists>s'. pop_front s = Inr s' \<and>
           numCells s' = numCells s \<and> numBlocks s' = numBlocks s \<and>
           numElements s' = numElements s - 1 \<and>
           slot_at s' (abs_cell s 0) = None \<and>
           (\<forall>i < unat (numElements s) - 1. op_index s' (of_nat i) = op_index s (of_nat (i + 1))) \<and>
           (numElements s \<noteq> 1 \<longrightarrow>
              0 \<le> sint (iaFront s') \<and>
              front_offset s' = (if numBlocks s = 1 then (front_offset s + 1) mod unat (numCells s)
                                 else front_offset s + 1))"
proof -
  let ?n = "unat (numElements s)"
  let ?C = "unat (numCells s)"
  let ?a0 = "abs_cell s 0"
  note g = layout_geom [OF l ne]
  note t = geom_total [OF g]
  note b = layout_bounds [OF l]
  have n0: "0 < ?n" using ne by (simp add: unat_gt_0)
  have pos: "0 < numElements s" using ne by (simp add: word_greater_zero_iff)
  have a0: "?a0 < total_cells s" by (rule abs_cell_less [OF t(1)])
  have i0: "front_offset s + 0 < 2147483648" using b n0 by linarith
  obtain v where "slot_at s ?a0 = Some v" using layout_live [OF l, of 0] n0 by auto
  then obtain cs where blk: "blocks_of s ! (?a0 div ?C) = Block cs"
    using slot_live_block [of s ?a0] by auto
  define s1 where "s1 = write_abs s ?a0 None"
  have d: "destroy_at s 0 = Inr s1"
    unfolding s1_def using destroy_at_nat [OF g i0 blk] by simp
  have g1: "geom_ok s1" unfolding s1_def by (rule geom_write_abs [OF g])
  have f1: "numCells s1 = numCells s" "numBlocks s1 = numBlocks s"
    "numElements s1 = numElements s" "iaFront s1 = iaFront s"
    "total_cells s1 = total_cells s" "front_offset s1 = front_offset s"
    unfolding s1_def by simp_all
  have blk1: "blocks_of s1 ! (abs_cell s1 0 div unat (numCells s1))
                = Block (cs[?a0 mod ?C := None])"
    unfolding s1_def write_abs_fields by (rule block_after_write [OF g a0 blk])
  have lp: "for_int (numCells s1) (block_empty_step s1) 0 True = Inr False"
    by (rule block_empty_loop [OF g1 blk1])
  have dead1: "slot_at s1 ?a0 = None" unfolding s1_def by (rule slot_write_same [OF g a0])
  show ?thesis
  proof (cases "numElements s = 1")
    case True
    define s1' where "s1' = s1\<lparr>iaFront := 0\<rparr>"
    have g1': "geom_ok s1'" unfolding s1'_def by (rule geom_iaFront [OF g1]) simp
    have z: "abs_cell s1' 0 = 0" by (simp add: abs_cell_def s1'_def)
    have "front_offset s1' + 0 < 2147483648" by (simp add: s1'_def)
    then have ib: "ibFromID s1' 0 = Inr 0"
      using ibFromID_nat [OF geom_total [OF g1'], of 0] unfolding z by simp
    have nb: "0 < unat (numBlocks s1')" using t(1) by (simp add: s1'_def f1 total_cells_def)
    have st: "store_block s1' 0 Null = Inr (null_abs s1' 0)"
      using store_block_nat [OF g1' nb, of Null] by (simp add: null_abs_def)
    define s3 where "s3 = null_abs s1' 0"
    have nf: "null_front_block (s1\<lparr>iaFront := 0\<rparr>) = Inr s3"
      unfolding null_front_block_def s1'_def [symmetric] ib sum.case st s3_def ..
    have g3: "geom_ok s3" unfolding s3_def by (rule geom_null_abs [OF g1'])
    have f3: "numCells s3 = numCells s" "numBlocks s3 = numBlocks s"
      "numElements s3 = numElements s" "total_cells s3 = total_cells s" "iaFront s3 = 0"
      unfolding s3_def s1'_def by (simp_all add: f1)
    have "front_offset s3 + 1 < 2147483648" by (simp add: front_offset_def f3)
    then obtain y where y: "step_front_up s3 = Inr (s3\<lparr>iaFront := y\<rparr>)"
      using step_front_up_nat [OF geom_total(1) [OF g3]] f3(5) by auto
    have pf: "pop_front s = Inr (s3\<lparr>iaFront := y, numElements := numElements s - 1\<rparr>)"
      unfolding pop_front_def d sum.case lp using pos True nf y
      by (simp add: f1 f3)
    have dead3: "slot_at s3 ?a0 = None"
    proof (cases "?a0 div ?C = 0")
      case z0: True
      show ?thesis
        unfolding s3_def
        by (rule slot_null_same [OF g1' nb]) (simp add: s1'_def f1 z0)
    next
      case False
      then have "slot_at s3 ?a0 = slot_at s1' ?a0"
        unfolding s3_def by (intro slot_null_other) (simp add: s1'_def f1)
      then show ?thesis using dead1 by (simp add: s1'_def)
    qed
    have "?n = 1" using True by simp
    then show ?thesis unfolding pf using True dead3 f3 by simp
  next
    case False
    have n2: "2 \<le> ?n"
    proof -
      have "?n \<noteq> 1" using False by (metis unat_1 word_unat_eq_iff)
      then show ?thesis using n0 by linarith
    qed
    have r: "front_offset s1 + 1 < 2147483648" using b n2 by (simp add: f1)
    obtain y where y: "step_front_up s1 = Inr (s1\<lparr>iaFront := y\<rparr>)" "0 \<le> sint y"
      "nat (sint y) = (if numBlocks s = 1 then (front_offset s + 1) mod ?C else front_offset s + 1)"
      using step_front_up_nat [OF geom_total(1) [OF g1] _ r] t(3) by (auto simp: f1)
    define s' where "s' = s1\<lparr>iaFront := y, numElements := numElements s - 1\<rparr>"
    have pf: "pop_front s = Inr s'"
      unfolding pop_front_def d sum.case lp s'_def using pos False y(1) by (simp add: f1)
    have g': "geom_ok s'" unfolding s'_def using geom_iaFront [OF g1 y(2)] by simp
    have fo: "front_offset s' = nat (sint y)" by (simp add: s'_def)
    have tc: "total_cells s' = total_cells s" by (simp add: s'_def f1)
    have cong: "(nat (sint y) + i) mod total_cells s = (front_offset s + 1 + i) mod total_cells s" for i
    proof (cases "numBlocks s = 1")
      case True
      then have "total_cells s = ?C" by (simp add: total_cells_def)
      then show ?thesis unfolding y(3) using True by (simp add: mod_add_left_eq)
    next
      case False
      then show ?thesis unfolding y(3) by simp
    qed
    have le: "nat (sint y) \<le> front_offset s + 1"
      unfolding y(3) using mod_less_eq_dividend [of "front_offset s + 1" ?C] by simp
    have keep: "op_index s' (of_nat i) = op_index s (of_nat (i + 1))" if "i < ?n - 1" for i
    proof -
      have ii: "front_offset s + (i + 1) < 2147483648" using that b by linarith
      have ii': "front_offset s' + i < 2147483648" unfolding fo using le ii by linarith
      have ac: "abs_cell s' i = abs_cell s (i + 1)"
        unfolding abs_cell_def fo tc cong by (simp add: add.assoc)
      have "i + 1 < ?n" using that by linarith
      then have "abs_cell s 0 \<noteq> abs_cell s (i + 1)"
        by (intro abs_cell_distinct [of 0 "i + 1" ?n s] b(1)) simp_all
      then have ne0: "abs_cell s (i + 1) \<noteq> ?a0" by (rule not_sym)
      have "read_abs s' (abs_cell s (i + 1)) = read_abs s1 (abs_cell s (i + 1))"
        by (simp add: s'_def)
      also have "\<dots> = read_abs s (abs_cell s (i + 1))"
        unfolding s1_def by (rule read_write_other [OF ne0 numCells_pos [OF t(1)]])
      finally show ?thesis
        unfolding op_index_nat [OF g' ii'] op_index_nat [OF g ii] ac .
    qed
    have "slot_at s' ?a0 = None" using dead1 by (simp add: s'_def)
    moreover have "numCells s' = numCells s" "numBlocks s' = numBlocks s"
      "numElements s' = numElements s - 1" "iaFront s' = y"
      by (simp_all add: s'_def f1)
    ultimately show ?thesis unfolding pf using keep y(2,3) fo by simp
  qed
qed

subsection \<open>\<^verbatim>\<open>clear\<close>\<close>

lemma for_int_zero: "for_int 0 body 0 st = Inr st"
  by (subst for_int.simps) simp

lemma write_abs_shape:
  "(\<exists>cs. blocks_of (write_abs s a x) ! b = Block cs) \<longleftrightarrow> (\<exists>cs. blocks_of s ! b = Block cs)"
proof (cases "b = a div unat (numCells s) \<and> b < length (blocks_of s)")
  case True
  then show ?thesis unfolding blocks_write_abs by (auto split: ptr.splits)
next
  case False
  then show ?thesis
    unfolding blocks_write_abs by (cases "b = a div unat (numCells s)") (simp_all add: list_update_beyond)
qed

lemma load_block_idx:
  assumes "geom_ok s" "b < unat (numBlocks s)"
  shows "load_block s (of_nat b) = Inr (blocks_of s ! b)"
proof -
  have l: "b < length (blocks_of s)" using assms by (simp add: geom_ok_def)
  have "length (blocks_of s) < 2147483648"
    using assms(1) by (auto simp: geom_ok_def total_cells_def intro: le_less_trans [rotated])
  then have c: "b < 2147483648" using l by linarith
  show ?thesis
    unfolding load_block_def geom_blocks [OF assms(1)] option.case by (rule arr_load_nat [OF l c])
qed

lemma null_block_nat:
  assumes "geom_ok s" "b < unat (numBlocks s)"
  shows "null_block (of_nat b) s = Inr (null_abs s b)"
proof (cases "blocks_of s ! b = Null")
  case True
  then have "(blocks_of s)[b := Null] = blocks_of s" by (metis list_update_id)
  then have "null_abs s b = s" unfolding null_abs_def using geom_blocks [OF assms(1)] by simp
  then show ?thesis
    unfolding null_block_def load_block_idx [OF assms] using True by simp
next
  case False
  then show ?thesis
    unfolding null_block_def load_block_idx [OF assms] sum.case
    using store_block_nat [OF assms, of Null] by (simp add: null_abs_def)
qed

lemma null_prefix_step:
  assumes "j < length bs"
  shows "(replicate j Null @ drop j bs)[j := Null] = replicate (Suc j) Null @ drop (Suc j) bs"
proof -
  have "drop j bs = bs ! j # drop (Suc j) bs" using assms by (simp add: Cons_nth_drop_Suc)
  then show ?thesis by (simp add: list_update_append replicate_append_same)
qed

lemma destroy_loop:
  assumes l: "layout_ok s" and g: "geom_ok s"
  shows "\<exists>s1. for_int (numElements s) (\<lambda>iD st. destroy_at st iD) 0 s = Inr s1 \<and>
              geom_ok s1 \<and> numCells s1 = numCells s \<and> numBlocks s1 = numBlocks s \<and>
              iaFront s1 = iaFront s \<and> (numElements s = 0 \<longrightarrow> s1 = s)"
proof -
  note b = layout_bounds [OF l]
  define I where "I = (\<lambda>(j::nat) st. geom_ok st \<and> numCells st = numCells s \<and>
      numBlocks st = numBlocks s \<and> iaFront st = iaFront s \<and>
      (\<forall>k. (\<exists>cs. blocks_of st ! k = Block cs) \<longleftrightarrow> (\<exists>cs. blocks_of s ! k = Block cs)) \<and>
      (j = 0 \<longrightarrow> st = s))"
  have bnd: "unat (numElements s) < 2147483648" using b by linarith
  have init: "I 0 s" using g by (simp add: I_def)
  have step: "\<exists>st'. destroy_at st (of_nat j) = Inr st' \<and> I (Suc j) st'"
    if j: "j < unat (numElements s)" and inv: "I j st" for j st
  proof -
    have gs: "geom_ok st" and f: "numCells st = numCells s" "numBlocks st = numBlocks s"
      "iaFront st = iaFront s"
      and sh: "\<And>k. (\<exists>cs. blocks_of st ! k = Block cs) \<longleftrightarrow> (\<exists>cs. blocks_of s ! k = Block cs)"
      using inv by (simp_all add: I_def)
    have fo: "front_offset st = front_offset s" "abs_cell st j = abs_cell s j"
      by (simp_all add: front_offset_def abs_cell_def total_cells_def f)
    have r: "front_offset st + j < 2147483648" unfolding fo using j b by linarith
    obtain v where "slot_at s (abs_cell s j) = Some v" using layout_live [OF l j] by auto
    then have "\<exists>cs. blocks_of s ! (abs_cell s j div unat (numCells s)) = Block cs"
      using slot_live_block [of s "abs_cell s j"] by auto
    then obtain cs where blk: "blocks_of st ! (abs_cell st j div unat (numCells st)) = Block cs"
      unfolding fo f using sh by blast
    have d: "destroy_at st (of_nat j) = Inr (write_abs st (abs_cell st j) None)"
      by (rule destroy_at_nat [OF gs r blk])
    have "I (Suc j) (write_abs st (abs_cell st j) None)"
      unfolding I_def using geom_write_abs [OF gs] f sh by (simp add: write_abs_shape)
    then show ?thesis using d by simp
  qed
  have "\<exists>st'. for_int (numElements s) (\<lambda>iD st. destroy_at st iD) 0 s = Inr st' \<and>
              I (unat (numElements s)) st'"
    by (rule for_int_rule0 [where I = I, OF bnd init]) (rule step)
  then obtain s1 where s1: "for_int (numElements s) (\<lambda>iD st. destroy_at st iD) 0 s = Inr s1"
    "I (unat (numElements s)) s1" by blast
  show ?thesis using s1 by (auto simp: I_def)
qed

lemma null_loop:
  assumes g: "geom_ok s"
  shows "for_int (numBlocks s) null_block 0 s
           = Inr (s\<lparr>data := Some (replicate (unat (numBlocks s)) Null)\<rparr>)"
proof -
  let ?bs = "blocks_of s"
  let ?nb = "unat (numBlocks s)"
  define J where "J = (\<lambda>(j::nat) st. st = s\<lparr>data := Some (replicate j Null @ drop j ?bs)\<rparr>)"
  have len: "length ?bs = ?nb" using g by (simp add: geom_ok_def)
  have bnd: "?nb < 2147483648"
    using g by (auto simp: geom_ok_def total_cells_def intro: le_less_trans [rotated])
  have init: "J 0 s" using geom_blocks [OF g] by (simp add: J_def)
  have gj: "geom_ok (s\<lparr>data := Some (replicate j Null @ drop j ?bs)\<rparr>)" if "j \<le> ?nb" for j
  proof -
    have "\<forall>p \<in> set (replicate j Null @ drop j ?bs). block_ok (unat (numCells s)) p"
      using g by (auto simp: geom_ok_def block_ok_def dest: in_set_dropD)
    then show ?thesis using g that len
      by (simp add: geom_ok_def blocks_of_def total_cells_def)
  qed
  have step: "\<exists>st'. null_block (of_nat j) st = Inr st' \<and> J (Suc j) st'"
    if j: "j < ?nb" and inv: "J j st" for j st
  proof -
    have st: "st = s\<lparr>data := Some (replicate j Null @ drop j ?bs)\<rparr>" using inv by (simp add: J_def)
    have gs: "geom_ok st" unfolding st using gj [of j] j by simp
    have nb: "j < unat (numBlocks st)" using j by (simp add: st)
    have bl: "blocks_of st = replicate j Null @ drop j ?bs" by (simp add: st blocks_of_def)
    have "null_abs st j = s\<lparr>data := Some (replicate (Suc j) Null @ drop (Suc j) ?bs)\<rparr>"
      unfolding null_abs_def bl using null_prefix_step [of j ?bs] j len by (simp add: st)
    then show ?thesis using null_block_nat [OF gs nb] by (simp add: J_def)
  qed
  have "\<exists>st'. for_int (numBlocks s) null_block 0 s = Inr st' \<and> J ?nb st'"
    by (rule for_int_rule0 [where I = J, OF bnd init]) (rule step)
  then show ?thesis using len by (auto simp: J_def)
qed

text \<open>
  \<^verbatim>\<open>clear\<close> on every state of the data model: it returns, with no element, every
  block pointer null and the other members unchanged.
\<close>

lemma clear_nat:
  assumes l: "layout_ok s"
  shows "\<exists>s'. clear s = Inr s' \<and> numElements s' = 0 \<and>
           numCells s' = numCells s \<and> numBlocks s' = numBlocks s \<and> iaFront s' = iaFront s \<and>
           blocks_of s' = replicate (unat (numBlocks s)) Null \<and>
           (numElements s = 0 \<and> (\<forall>p \<in> set (blocks_of s). p = Null) \<longrightarrow> s' = s)"
proof (cases "numBlocks s = 0")
  case True
  then have "total_cells s = 0" by (simp add: total_cells_def)
  then have "unat (numElements s) = 0" using layout_bounds(1) [OF l] by simp
  then have n: "numElements s = 0" by (simp add: unat_eq_0)
  have "length (blocks_of s) = 0" using l True by (simp add: layout_ok_def)
  then have e: "blocks_of s = []" by simp
  have "clear s = Inr (s\<lparr>numElements := 0\<rparr>)"
    unfolding clear_def n for_int_zero sum.case True ..
  moreover have "s\<lparr>numElements := 0\<rparr> = s" using n by (metis deque.surjective deque.update_convs(3))
  ultimately show ?thesis using n True e by simp
next
  case False
  then have nb: "0 < unat (numBlocks s)" by (simp add: unat_gt_0)
  have "0 < unat (numCells s)" using l by (simp add: layout_ok_def)
  then have t: "0 < total_cells s" using nb by (simp add: total_cells_def)
  have "data s \<noteq> None" using l False by (auto simp: layout_ok_def)
  then have g: "geom_ok s" using l t by (simp add: layout_ok_def geom_ok_def)
  obtain s1 where s1: "for_int (numElements s) (\<lambda>iD st. destroy_at st iD) 0 s = Inr s1"
    "geom_ok s1" "numCells s1 = numCells s" "numBlocks s1 = numBlocks s" "iaFront s1 = iaFront s"
    "numElements s = 0 \<longrightarrow> s1 = s"
    using destroy_loop [OF l g] by blast
  define s' where "s' = s1\<lparr>data := Some (replicate (unat (numBlocks s)) Null), numElements := 0\<rparr>"
  have nl: "for_int (numBlocks s1) null_block 0 s1
              = Inr (s1\<lparr>data := Some (replicate (unat (numBlocks s)) Null)\<rparr>)"
    using null_loop [OF s1(2)] by (simp only: s1(4))
  have c: "clear s = Inr s'"
    unfolding clear_def s1(1) sum.case nl s'_def ..
  have noop: "s' = s" if "numElements s = 0" "\<forall>p \<in> set (blocks_of s). p = Null"
  proof -
    have e: "s1 = s" using s1(6) that(1) by simp
    have "length (blocks_of s) = unat (numBlocks s)" using g by (simp add: geom_ok_def)
    then have "replicate (unat (numBlocks s)) Null = blocks_of s"
      using that(2) replicate_length_same [of "blocks_of s" Null] by simp
    then have "s' = s\<lparr>data := data s, numElements := numElements s\<rparr>"
      unfolding s'_def e using geom_blocks [OF g] that(1) by simp
    then show ?thesis by simp
  qed
  show ?thesis
    unfolding c using noop s1 by (simp add: s'_def blocks_of_def)
qed

subsection \<open>Iterators\<close>

lemma collect_Inr:
  "collect rs = Inr vs \<Longrightarrow> length vs = length rs \<and> (\<forall>i < length rs. rs ! i = Inr (vs ! i))"
proof (induction rs arbitrary: vs)
  case Nil
  then show ?case by simp
next
  case (Cons r rs)
  then obtain v ws where r: "r = Inr v" and ws: "collect rs = Inr ws" and vs: "vs = v # ws"
    by (auto split: sum.splits)
  show ?case using Cons.IH [OF ws] r vs by (auto simp: nth_Cons split: nat.splits)
qed

lemma end_dq_nat: "end_dq s = \<lparr>it_id = of_nat (unat (numElements s))\<rparr>"
  by (simp add: end_dq_def)

lemma traverse_nat:
  assumes n: "unat (numElements s) < 2147483648"
  shows "k \<le> unat (numElements s) \<Longrightarrow>
           traverse deref s \<lparr>it_id = of_nat k\<rparr>
             = collect (map (\<lambda>i. deref s \<lparr>it_id = of_nat i\<rparr>) [k ..< unat (numElements s)])"
proof (induction "unat (numElements s) - k" arbitrary: k)
  case 0
  then have "k = unat (numElements s)" by simp
  then have "\<not> it_neq \<lparr>it_id = of_nat k\<rparr> (end_dq s)" by (simp add: it_neq_def end_dq_nat)
  then have "traverse deref s \<lparr>it_id = of_nat k\<rparr> = Inr []" by (subst traverse.simps) simp
  then show ?case using \<open>k = unat (numElements s)\<close> by simp
next
  case (Suc d)
  then have k: "k < unat (numElements s)" by linarith
  then have k31: "k < 2147483648" "k + 1 < 2147483648" using n by linarith+
  have "(of_nat k :: cint) \<noteq> of_nat (unat (numElements s))"
    using of_nat32_eq [OF k31(1) n] k by simp
  then have gd: "it_neq \<lparr>it_id = of_nat k\<rparr> (end_dq s)" by (simp add: it_neq_def end_dq_nat)
  have nx: "it_incr \<lparr>it_id = of_nat k\<rparr> = Inr \<lparr>it_id = of_nat (Suc k)\<rparr>"
    using int_add_one [OF k31(2)] by (simp add: it_incr_def)
  have ih: "traverse deref s \<lparr>it_id = of_nat (Suc k)\<rparr>
              = collect (map (\<lambda>i. deref s \<lparr>it_id = of_nat i\<rparr>) [Suc k ..< unat (numElements s)])"
    by (rule Suc.hyps(1)) (use Suc.hyps(2) k in simp_all)
  have "traverse deref s \<lparr>it_id = of_nat k\<rparr>
          = (case deref s \<lparr>it_id = of_nat k\<rparr> of Inl e \<Rightarrow> Inl e
             | Inr v \<Rightarrow> (case traverse deref s \<lparr>it_id = of_nat (Suc k)\<rparr> of
                           Inl e \<Rightarrow> Inl e | Inr vs \<Rightarrow> Inr (v # vs)))"
    by (subst traverse.simps) (simp add: gd nx cong: sum.case_cong)
  then show ?case unfolding ih using k by (simp add: upt_conv_Cons)
qed

lemma traverse_begin:
  assumes "unat (numElements s) < 2147483648"
  shows "traverse it_deref s (begin_dq s)
           = collect (map (\<lambda>i. op_index s (of_nat i)) [0 ..< unat (numElements s)])"
    and "traverse it_deref_h s (begin_dq s)
           = collect (map (\<lambda>i. op_index_h s (of_nat i)) [0 ..< unat (numElements s)])"
  using traverse_nat [OF assms, of 0 it_deref] traverse_nat [OF assms, of 0 it_deref_h]
  by (simp_all add: begin_dq_def it_deref_def it_deref_h_def)

lemma end_minus_begin:
  assumes "unat (numElements s) < 2147483648"
  shows "\<exists>d. it_minus (end_dq s) (begin_dq s) = Inr d \<and> (scast d :: size_t) = size_dq s"
proof -
  let ?n = "unat (numElements s)"
  have s: "sint (ucast (numElements s) :: cint) = int ?n"
    unfolding ucast_of_unat by (rule sint_of_nat32 [OF assms])
  have "int ?n < 2147483648" using assms by linarith
  then have u: "uint (numElements s) < 2147483648" by (simp only: uint_nat)
  have nn: "\<not> uint (numElements s) < - 2147483648"
    using uint_ge_0 [of "numElements s"] by linarith
  have "it_minus (end_dq s) (begin_dq s) = Inr (ucast (numElements s))"
    unfolding it_minus_def end_dq_def begin_dq_def int_sub_def
    using u nn by (simp add: s)
  then have m: "it_minus (end_dq s) (begin_dq s) = Inr (of_nat ?n)"
    by (simp only: ucast_of_unat)
  have "unat (scast (of_nat ?n :: cint) :: size_t) = ?n" by (rule scast_of_nat32 [OF assms])
  then have "(scast (of_nat ?n :: cint) :: size_t) = numElements s" by (simp only: word_unat_eq_iff)
  then show ?thesis using m by (simp add: size_dq_def)
qed

subsection \<open>\<^verbatim>\<open>reallocate\<close>\<close>

lemma of_nat_nat_sint: "0 \<le> sint (x::cint) \<Longrightarrow> of_nat (nat (sint x)) = x"
  by simp

lemma unwrap_loop_start: "unwrap_loop s dataNew ibNew 0 = Inr (dataNew, ibNew)"
  by (subst unwrap_loop.simps) simp

lemma take_update_last:
  assumes "j < length xs"
  shows "take (Suc j) (xs[j := x]) = take j xs @ [x]"
  using assms by (simp add: take_Suc_conv_app_nth)

lemma null_rest_nat:
  assumes m: "m < 2147483648"
  shows "j \<le> m \<Longrightarrow> length dataNew = m \<Longrightarrow>
           null_rest dataNew (of_nat j) (of_nat m) = Inr (take j dataNew @ replicate (m - j) Null)"
proof (induction "m - j" arbitrary: j dataNew)
  case 0
  then have j: "j = m" by simp
  have "null_rest dataNew (of_nat j) (of_nat m) = Inr dataNew"
    by (subst null_rest.simps) (simp add: j)
  then show ?case using 0 j by simp
next
  case (Suc d)
  then have j: "j < m" by linarith
  then have j31: "j < 2147483648" "j + 1 < 2147483648" using m by linarith+
  have gd: "sint (of_nat j :: cint) < sint (of_nat m :: cint)"
    unfolding sint_of_nat32 [OF j31(1)] sint_of_nat32 [OF m] using j by simp
  have st: "arr_store dataNew (of_nat j) Null = Inr (dataNew[j := Null])"
    by (rule arr_store_nat) (use j Suc.prems(2) j31 in simp_all)
  have nx: "int_add (of_nat j) 1 = Inr (of_nat (Suc j))"
    using int_add_one [OF j31(2)] by simp
  have ih: "null_rest (dataNew[j := Null]) (of_nat (Suc j)) (of_nat m)
              = Inr (take (Suc j) (dataNew[j := Null]) @ replicate (m - Suc j) Null)"
    by (rule Suc.hyps(1)) (use Suc.hyps(2) j Suc.prems(2) in simp_all)
  have "null_rest dataNew (of_nat j) (of_nat m)
          = null_rest (dataNew[j := Null]) (of_nat (Suc j)) (of_nat m)"
    by (subst null_rest.simps) (simp add: gd st nx)
  also have "\<dots> = Inr (take j dataNew @ [Null] @ replicate (m - Suc j) Null)"
    unfolding ih using take_update_last [of j dataNew Null] j Suc.prems(2) by simp
  also have "[Null] @ replicate (m - Suc j) Null = replicate (m - j) (Null :: 'a ptr)"
    using j by (simp add: Suc_diff_Suc flip: replicate_Suc)
  finally show ?case .
qed

lemma back_in_front_cell_nat:
  assumes l: "layout_ok s" and n1: "numElements s \<noteq> 1"
  shows "back_in_front_cell s = Inr False"
proof (cases "numElements s = 0")
  case True
  then show ?thesis by (simp add: back_in_front_cell_def)
next
  case False
  let ?n = "unat (numElements s)"
  let ?C = "unat (numCells s)"
  note g = layout_geom [OF l False]
  note t = geom_total [OF g]
  note b = layout_bounds [OF l]
  have n0: "0 < ?n" using False by (simp add: unat_gt_0)
  have "?n \<noteq> 1" using n1 by (metis unat_1 word_unat_eq_iff)
  then have n2: "2 \<le> ?n" using n0 by linarith
  have n31: "?n < 2147483648" using b by linarith
  have pos: "0 < numElements s" using False by (simp add: word_greater_zero_iff)
  have i: "front_offset s + 0 < 2147483648" "front_offset s + (?n - 1) < 2147483648"
    using b n0 by linarith+
  have idr: "int_sub (ucast (numElements s)) 1 = Inr (of_nat (?n - 1))"
    unfolding ucast_numElements by (rule int_sub_one [OF n0 n31])
  have a: "abs_cell s 0 < 2147483648" "abs_cell s (?n - 1) < 2147483648"
    using abs_cell_less [OF t(1), of 0] abs_cell_less [OF t(1), of "?n - 1"] t(2) by linarith+
  have d: "abs_cell s 0 div ?C < 2147483648" "abs_cell s (?n - 1) div ?C < 2147483648"
    using a div_le_dividend [of "abs_cell s 0" ?C] div_le_dividend [of "abs_cell s (?n - 1)" ?C]
    by linarith+
  have m: "abs_cell s 0 mod ?C < 2147483648" "abs_cell s (?n - 1) mod ?C < 2147483648"
    using a mod_less_eq_dividend [of "abs_cell s 0" ?C]
      mod_less_eq_dividend [of "abs_cell s (?n - 1)" ?C] by linarith+
  have ne: "abs_cell s 0 \<noteq> abs_cell s (?n - 1)"
    by (rule abs_cell_distinct [of 0 "?n - 1" ?n]) (use n2 b in linarith)+
  have "\<not> (abs_cell s 0 div ?C = abs_cell s (?n - 1) div ?C \<and>
            abs_cell s 0 mod ?C = abs_cell s (?n - 1) mod ?C)"
    using ne by (metis div_mult_mod_eq)
  then show ?thesis
    unfolding back_in_front_cell_def idr sum.case
    using pos ibFromID_nat [OF t i(1)] ibFromID_nat [OF t i(2)]
      icFromID_nat [OF t i(1)] icFromID_nat [OF t i(2)]
      of_nat32_eq [OF d] of_nat32_eq [OF m]
    by auto
qed

text \<open>
  On every state of the data model that does not hold exactly one element,
  \<^verbatim>\<open>reallocate\<close>, when it returns, leaves a block array of null pointers only.
\<close>

lemma reallocate_all_null:
  assumes l: "layout_ok s" and n1: "numElements s \<noteq> 1"
    and r: "reallocate T_of_int s numBlocksNew = Inr s'"
  shows "blocks_of s' = replicate (nat (sint numBlocksNew)) Null \<and>
         numBlocks s' = scast numBlocksNew \<and> numElements s' = numElements s \<and>
         numCells s' = numCells s"
proof -
  let ?m = "nat (sint numBlocksNew)"
  have as: "0 < sint numBlocksNew" "numElements s < (scast numBlocksNew :: size_t)"
    using r by (auto simp: reallocate_def split: if_splits)
  have m31: "?m < 2147483648" using sint32_lt [of numBlocksNew] as(1) by linarith
  have k: "of_nat ?m = numBlocksNew" using as(1) by (intro of_nat_nat_sint) simp
  have len: "unat (scast numBlocksNew :: size_t) = ?m" using as(1) by (intro scast_nonneg) simp
  have nr: "null_rest (replicate ?m Wild) 0 numBlocksNew = Inr (replicate ?m Null)"
    using null_rest_nat [OF m31, of 0 "replicate ?m Wild"] unfolding k by simp
  have cz: "numCells s \<noteq> 0" using l by (auto simp: layout_ok_def)
  have "reallocate T_of_int s numBlocksNew
          = Inr (s\<lparr>data := Some (replicate ?m Null), numBlocks := scast numBlocksNew,
                   iaFront := ucast ((scast (iaFront s) :: size_t) mod numCells s)\<rparr>)"
    unfolding reallocate_def len unwrap_loop_start sum.case prod.case nr
      back_in_front_cell_nat [OF l n1]
    using as cz by simp
  then show ?thesis using r by (auto simp: blocks_of_def)
qed

subsection \<open>\<^verbatim>\<open>push_front\<close> and the copy constructor of \<^verbatim>\<open>src/deque.h\<close>\<close>

lemma step_front_down_nat:
  assumes t: "0 < total_cells s" "total_cells s < 2147483648" and f: "0 \<le> sint (iaFront s)"
  shows "step_front_down s
           = Inr (s\<lparr>iaFront := of_nat ((front_offset s + total_cells s - 1) mod total_cells s)\<rparr>)"
proof -
  let ?T = "total_cells s"
  let ?P = "numBlocks s * numCells s"
  have uP: "unat ?P = ?T" by (rule total_cells_word(2) [OF t(2)])
  have Pnz: "?P \<noteq> 0" using uP t(1) by (metis unat_0 less_numeral_extra(3))
  have o: "sint (1 :: cint) = 1" by simp
  have lo: "- 2147483648 \<le> sint (iaFront s) - 1" using f by linarith
  have hi: "sint (iaFront s) - 1 < 2147483648" using sint32_lt [of "iaFront s"] by linarith
  have sub: "int_sub (iaFront s) 1 = Inr (iaFront s - 1)"
    unfolding int_sub_def o using lo hi by simp
  have val: "unat (((scast (iaFront s - 1) :: size_t) + ?P) mod ?P)
               = (front_offset s + ?T - 1) mod ?T"
  proof (cases "iaFront s = 0")
    case True
    have "(scast (iaFront s - 1) :: size_t) + ?P = ?P - 1" by (simp add: True)
    moreover have "unat (?P - 1) = ?T - 1" unfolding unat_minus_one [OF Pnz] uP ..
    moreover have "front_offset s = 0" by (simp add: front_offset_def True)
    ultimately show ?thesis unfolding unat_mod uP by simp
  next
    case False
    then have "sint (iaFront s) \<noteq> 0" by (simp add: signed_eq_0_iff)
    then have f1: "1 \<le> sint (iaFront s)" using f by linarith
    have sx: "sint (iaFront s - 1) = sint (iaFront s) - 1"
    proof -
      have "sint (iaFront s - 1)
              = signed_take_bit (LENGTH(32) - Suc 0) (sint (iaFront s) - sint (1 :: cint))"
        by (simp only: sint_word_ariths One_nat_def)
      also have "\<dots> = sint (iaFront s) - 1"
        unfolding o using lo hi by (intro signed_take_bit_int_eq_self) simp_all
      finally show ?thesis .
    qed
    have nn: "0 \<le> sint (iaFront s - 1)" unfolding sx using f1 by simp
    have ux: "unat (scast (iaFront s - 1) :: size_t) = front_offset s - 1"
      unfolding scast_nonneg [OF nn] sx front_offset_def using f1 by (simp add: nat_diff_distrib)
    have fo1: "1 \<le> front_offset s" using f1 by (simp add: front_offset_def)
    have "front_offset s < 2147483648"
      using sint32_lt [of "iaFront s"] f by (simp add: front_offset_def)
    then have "unat (scast (iaFront s - 1) :: size_t) + unat ?P < 2 ^ LENGTH(64)"
      unfolding ux uP using t(2) by simp
    then have "unat ((scast (iaFront s - 1) :: size_t) + ?P)
                 = unat (scast (iaFront s - 1) :: size_t) + unat ?P"
      by (rule unat_add_lem [THEN iffD1])
    then show ?thesis unfolding unat_mod uP ux using fo1 by simp
  qed
  show ?thesis
    unfolding step_front_down_def sub sum.case using Pnz
    by (simp only: if_False ucast_of_unat val)
qed

text \<open>
  \<^verbatim>\<open>push_front\<close> without growth. On a state of the data model with a free slot
  (\<open>numElements < numBlocks * numCells\<close>), when the block of the cell before the front
  is allocated, \<^verbatim>\<open>push_front(t)\<close> returns, steps the front offset down by one modulo
  the total cell count, and the logical sequence is the old one with \<open>t\<close> prepended.
  The last hypothesis keeps \<open>iaFront + id\<close> in the range of \<^verbatim>\<open>int\<close> for every index
  of the new sequence.
\<close>

lemma push_front_no_growth:
  assumes l: "layout_ok s" and free: "unat (numElements s) < total_cells s"
    and blk: "blocks_of s ! (((front_offset s + total_cells s - 1) mod total_cells s)
                 div unat (numCells s)) = Block cs"
    and rng: "total_cells s + unat (numElements s) < 2147483648"
  shows "\<exists>s'. push_front T_of_int s t = Inr s' \<and>
           numCells s' = numCells s \<and> numBlocks s' = numBlocks s \<and>
           numElements s' = numElements s + 1 \<and>
           front_offset s' = (front_offset s + total_cells s - 1) mod total_cells s \<and>
           op_index s' 0 = Inr t \<and>
           (\<forall>i < unat (numElements s). op_index s' (of_nat (i + 1)) = op_index s (of_nat i))"
proof -
  let ?n = "unat (numElements s)"
  let ?T = "total_cells s"
  let ?C = "unat (numCells s)"
  define F' where "F' = (front_offset s + ?T - 1) mod ?T"
  have t0: "0 < ?T" using free by linarith
  have t31: "?T < 2147483648" using rng by linarith
  have f: "0 \<le> sint (iaFront s)" using l by (simp add: layout_ok_def)
  have "numBlocks s \<noteq> 0" using t0 by (auto simp: total_cells_def)
  then have "data s \<noteq> None" using l by (auto simp: layout_ok_def)
  then have g: "geom_ok s" using l t0 by (simp add: layout_ok_def geom_ok_def)
  have F'T: "F' < ?T" unfolding F'_def using t0 by simp
  then have F'31: "F' < 2147483648" using t31 by linarith
  have blk': "blocks_of s ! (F' div ?C) = Block cs" unfolding F'_def by (rule blk)
  have uP: "unat (numBlocks s * numCells s) = ?T" by (rule total_cells_word(2) [OF t31])
  have nofull: "numElements s \<noteq> numBlocks s * numCells s"
    using free uP by (metis less_irrefl)
  define s2 where "s2 = s\<lparr>iaFront := of_nat F'\<rparr>"
  have sd: "step_front_down s = Inr s2"
    unfolding s2_def F'_def by (rule step_front_down_nat [OF t0 t31 f])
  have sy: "sint (of_nat F' :: cint) = int F'" by (rule sint_of_nat32 [OF F'31])
  have g2: "geom_ok s2" unfolding s2_def by (rule geom_iaFront [OF g]) (simp add: sy)
  have f2: "front_offset s2 = F'" "total_cells s2 = ?T" "numCells s2 = numCells s"
    "blocks_of s2 = blocks_of s"
    by (simp_all add: s2_def sy)
  have a0: "abs_cell s2 0 = F'" unfolding abs_cell_def f2 using F'T by simp
  have blk2: "blocks_of s2 ! (abs_cell s2 0 div unat (numCells s2)) = Block cs"
    unfolding a0 f2 by (rule blk')
  have r0: "front_offset s2 + 0 < 2147483648" unfolding f2 using F'31 by simp
  define s3 where "s3 = write_abs s2 F' (Some t)"
  have wa: "op_index_assign s2 0 t = Inr s3"
    using op_index_assign_nat [OF g2 r0 blk2, of t] unfolding a0 s3_def by simp
  define s' where "s' = s3\<lparr>numElements := numElements s3 + 1\<rparr>"
  have pf: "push_front T_of_int s t = Inr s'"
    unfolding push_front_def using nofull by (simp add: sd wa s'_def)
  have g3: "geom_ok s3" unfolding s3_def by (rule geom_write_abs [OF g2])
  have g': "geom_ok s'" unfolding s'_def using g3 by simp
  have f': "front_offset s' = F'" "total_cells s' = ?T" "numCells s' = numCells s"
    "numBlocks s' = numBlocks s" "numElements s' = numElements s + 1"
    by (simp_all add: s'_def s3_def f2) (simp_all add: s2_def)
  have ac: "abs_cell s' j = (F' + j) mod ?T" for j unfolding abs_cell_def f' ..
  have rd: "read_abs s' a = read_abs s3 a" for a by (simp add: s'_def)
  have cpos: "0 < unat (numCells s2)" unfolding f2 by (rule numCells_pos [OF t0])
  have F'T2: "F' < total_cells s2" unfolding f2 by (rule F'T)
  have blk2': "blocks_of s2 ! (F' div unat (numCells s2)) = Block cs" unfolding f2 by (rule blk')
  have new: "read_abs s3 F' = Inr t"
  proof -
    have "blocks_of s3 ! (F' div unat (numCells s2)) = Block (cs[F' mod unat (numCells s2) := Some t])"
      unfolding s3_def by (rule block_after_write [OF g2 F'T2 blk2'])
    moreover have "length cs = ?C"
      using geom_block_ok [OF g F'T] blk' by (simp add: block_ok_def)
    ultimately show ?thesis
      using numCells_pos [OF t0] by (simp add: read_abs_def s3_def f2)
  qed
  have first: "op_index s' 0 = Inr t"
  proof -
    have "front_offset s' + 0 < 2147483648" unfolding f' using F'31 by simp
    then have "op_index s' (of_nat 0) = read_abs s' (abs_cell s' 0)" by (rule op_index_nat [OF g'])
    then show ?thesis unfolding ac rd using new F'T by simp
  qed
  have shift: "(F' + (i + 1)) mod ?T = (front_offset s + i) mod ?T" for i
  proof -
    have "(F' + (i + 1)) mod ?T = (front_offset s + ?T - 1 + (i + 1)) mod ?T"
      unfolding F'_def by (rule mod_add_left_eq)
    also have "front_offset s + ?T - 1 + (i + 1) = front_offset s + i + ?T" using t0 by simp
    finally show ?thesis by simp
  qed
  have keep: "op_index s' (of_nat (i + 1)) = op_index s (of_nat i)" if i: "i < ?n" for i
  proof -
    have r': "front_offset s' + (i + 1) < 2147483648" unfolding f' using F'T i rng by linarith
    have r: "front_offset s + i < 2147483648" using layout_bounds(3) [OF l] i by linarith
    have "(F' + 0) mod ?T \<noteq> (F' + (i + 1)) mod ?T"
      by (rule circ_distinct [of 0 "i + 1" "?n + 1"]) (use i free in simp_all)
    then have ne: "abs_cell s i \<noteq> F'" unfolding shift abs_cell_def using F'T by simp
    have "read_abs s3 (abs_cell s i) = read_abs s2 (abs_cell s i)"
      unfolding s3_def by (rule read_write_other [OF ne cpos])
    also have "\<dots> = read_abs s (abs_cell s i)" by (simp add: s2_def)
    finally show ?thesis
      unfolding op_index_nat [OF g' r'] op_index_nat [OF g r] ac shift rd
      by (simp add: abs_cell_def)
  qed
  show ?thesis unfolding pf using f' first keep by (simp add: F'_def)
qed

text \<open>
  The copy constructor of \<^verbatim>\<open>src/deque.h\<close> on a source whose blocks are all
  allocated with \<open>numCells\<close> slots that all hold an object: the copy is the same value
  as the source. In the model a state is a value, so the storage of the copy is not
  shared with the source.
\<close>

lemma copy_cells_h_full:
  assumes "\<forall>j \<in> set js. j < length vs"
  shows "copy_cells_h (Block (map Some vs)) js = Inr (map (\<lambda>j. Some (vs ! j)) js)"
  using assms by (induction js) simp_all

lemma copy_block_h_full:
  assumes "data rhs = Some bs" "i < length bs" "bs ! i = Block (map Some vs)"
    and "length vs = unat (numCells rhs)"
  shows "copy_block_h rhs i = Inr (bs ! i)"
proof (cases "unat (numCells rhs) = 0")
  case True
  then show ?thesis using assms by (simp add: copy_block_h_def)
next
  case False
  have "copy_cells_h (Block (map Some vs)) [0 ..< length vs]
          = Inr (map (\<lambda>j. Some (vs ! j)) [0 ..< length vs])"
    by (rule copy_cells_h_full) simp
  also have "map (\<lambda>j. Some (vs ! j)) [0 ..< length vs] = map Some vs"
    by (rule nth_equalityI) simp_all
  finally show ?thesis using assms False by (simp add: copy_block_h_def)
qed

lemma copy_blocks_h_all:
  assumes "data rhs = Some bs"
    and "\<forall>i \<in> set is. i < length bs \<and>
           (\<exists>vs. bs ! i = Block (map Some vs) \<and> length vs = unat (numCells rhs))"
  shows "copy_blocks_h rhs is = Inr (map (\<lambda>i. bs ! i) is)"
  using assms(2)
proof (induction "is")
  case Nil
  then show ?case by simp
next
  case (Cons i "is")
  then obtain vs where c: "i < length bs" "bs ! i = Block (map Some vs)"
      "length vs = unat (numCells rhs)"
    by auto
  have "copy_block_h rhs i = Inr (bs ! i)" by (rule copy_block_h_full [OF assms(1) c])
  then show ?case using Cons by simp
qed

lemma copy_ctor_h_full:
  assumes "data s = Some bs" "length bs = unat (numBlocks s)"
    and "\<forall>p \<in> set bs. \<exists>vs. p = Block (map Some vs) \<and> length vs = unat (numCells s)"
  shows "copy_ctor_h s = Inr s"
proof -
  have "\<forall>i \<in> set [0 ..< unat (numBlocks s)].
          i < length bs \<and> (\<exists>vs. bs ! i = Block (map Some vs) \<and> length vs = unat (numCells s))"
    using assms(2,3) by simp
  then have "copy_blocks_h s [0 ..< unat (numBlocks s)] = Inr (map (\<lambda>i. bs ! i) [0 ..< length bs])"
    using copy_blocks_h_all [OF assms(1)] assms(2) by simp
  then have "copy_blocks_h s [0 ..< unat (numBlocks s)] = Inr bs" by (simp add: map_nth)
  then show ?thesis unfolding copy_ctor_h_def using assms(1) by simp
qed

text \<open>
  A raw slot in a block of the source stops the copy: the slot is read before any
  object is there.
\<close>

lemma copy_cells_h_raw:
  assumes "j < length cs" "cs ! j = None" "\<forall>k \<in> set js. k < length cs" "j \<in> set js"
  shows "\<exists>e. copy_cells_h (Block cs) js = Inl e"
  using assms(3,4)
proof (induction js)
  case Nil
  then show ?case by simp
next
  case (Cons k ks)
  show ?case
  proof (cases "k = j")
    case True
    then show ?thesis using assms(1,2) by simp
  next
    case False
    then have "j \<in> set ks" using Cons.prems by simp
    then obtain e where "copy_cells_h (Block cs) ks = Inl e" using Cons by auto
    then show ?thesis using Cons.prems by (simp split: option.splits)
  qed
qed

subsection \<open>Runs on concrete states\<close>

lemmas helper_defs =
  ibFromID_def icFromID_def iaFromID_def ibFromID_h_def icFromID_h_def iaFromID_h_def
  int_add_def int_sub_def

lemmas access_defs =
  op_index_def op_index_h_def op_index_assign_def put_slot_def load_block_def store_block_def
  arr_load_def arr_store_def read_cell_def write_cell_def

lemma replicate_unfold:
  "replicate 2 x = [x, x]"
  "replicate 3 x = [x, x, x]"
  "replicate 5 x = [x, x, x, x, x]"
  "replicate 10 x = [x, x, x, x, x, x, x, x, x, x]"
  "replicate 14 x = [x, x, x, x, x, x, x, x, x, x, x, x, x, x]"
  "replicate 15 x = [x, x, x, x, x, x, x, x, x, x, x, x, x, x, x]"
  "replicate 16 x = [x, x, x, x, x, x, x, x, x, x, x, x, x, x, x, x]"
  by (simp_all add: eval_nat_numeral)

lemma ucast_minus_one: "(ucast (- 1 :: size_t) :: cint) = - 1"
  by (rule bit_word_eqI) (auto simp: bit_ucast_iff)

lemma reallocate_fresh:
  "reallocate T_of_int (deque_new :: 'a deque) 1
     = Inr \<lparr>numCells = 16, numBlocks = 1, numElements = 0, iaFront = 0, data = Some [Null]\<rparr>"
  by (simp add: reallocate_def deque_new_def unwrap_loop.simps null_rest.simps arr_store_def
      int_add_def back_in_front_cell_def)

lemma push_front_fresh: "push_front T_of_int (deque_new :: 'a deque) t = Inl NullDeref"
  by (simp add: push_front_def reallocate_fresh [unfolded deque_new_def] deque_new_def
      step_front_down_def helper_defs access_defs)

lemma push_front_full: "push_front int_of_int full_block 99 = Inl AssertFailed"
  by (simp add: push_front_def reallocate_def full_block_def)

lemma reallocate_front_pair:
  "reallocate int_of_int front_pair 3
     = Inr \<lparr>numCells = 16, numBlocks = 3, numElements = 2, iaFront = 0,
            data = Some [Null, Null, Null]\<rparr>"
  by (simp add: reallocate_def front_pair_def unwrap_loop.simps null_rest.simps arr_store_def
      back_in_front_cell_def helper_defs replicate_unfold)

lemma reallocate_single_seven:
  "reallocate int_of_int single_seven 2
     = Inr \<lparr>numCells = 16, numBlocks = 2, numElements = 1, iaFront = 5,
            data = Some [Block [Some 16], Null]\<rparr>"
  by (simp add: reallocate_def single_seven_def unwrap_loop.simps null_rest.simps arr_store_def
      back_in_front_cell_def move_back_block_def move_loop.simps int_of_int_def helper_defs
      replicate_unfold)

lemma index_after_reallocate_single:
  "op_index \<lparr>numCells = 16, numBlocks = 2, numElements = 1, iaFront = 5,
             data = Some [Block [Some (16 :: int)], Null]\<rparr> 0 = Inl OutOfBounds"
  by (simp add: helper_defs access_defs)

lemma reallocate_full: "reallocate int_of_int full_block 2 = Inl AssertFailed"
  by (simp add: reallocate_def full_block_def)

lemma index_front_pair: "op_index front_pair 0 = Inr 10" "op_index front_pair 1 = Inr 20"
  "op_index_h front_pair 0 = Inr 10" "op_index_h front_pair 1 = Inr 20"
  by (simp_all add: front_pair_def helper_defs access_defs replicate_unfold)

lemma index_after_reallocate:
  "op_index \<lparr>numCells = 16, numBlocks = 3, numElements = 2, iaFront = 0,
             data = Some [Null, Null, Null :: int ptr]\<rparr> 0 = Inl NullDeref"
  by (simp add: helper_defs access_defs)

lemma index_wrapped_pair:
  "op_index wrapped_pair 0 = Inr 10" "op_index wrapped_pair 1 = Inr 20"
  "ibFromID wrapped_pair 1 = Inr 0" "icFromID wrapped_pair 1 = Inr 0"
  "iaFromID wrapped_pair 1 = Inr 0"
  by (simp_all add: wrapped_pair_def helper_defs access_defs replicate_unfold)

lemma index_h_wrapped_pair:
  "ibFromID_h wrapped_pair 1 = Inr 2" "icFromID_h wrapped_pair 1 = Inr 0"
  "op_index_h wrapped_pair 1 = Inl OutOfBounds" "back_h wrapped_pair = Inl OutOfBounds"
  by (simp_all add: wrapped_pair_def back_h_def helper_defs access_defs replicate_unfold)

lemma pop_front_wrapped_pair:
  "pop_front wrapped_pair
     = Inr \<lparr>numCells = 16, numBlocks = 2, numElements = 1, iaFront = 32,
            data = Some [Block (Some 20 # replicate 15 None), Block (replicate 16 None)]\<rparr>"
  by (simp add: pop_front_def wrapped_pair_def destroy_at_def for_int.simps block_empty_step_def
      slot_addr_not_null_def null_front_block_def step_front_up_def helper_defs access_defs
      replicate_unfold)

lemma pop_front_single_seven:
  "pop_front single_seven
     = Inr \<lparr>numCells = 16, numBlocks = 1, numElements = 0, iaFront = 1, data = Some [Null]\<rparr>"
  by (simp add: pop_front_def single_seven_def destroy_at_def for_int.simps block_empty_step_def
      slot_addr_not_null_def null_front_block_def step_front_up_def helper_defs access_defs
      replicate_unfold)

lemma op_assign_fresh:
  "op_assign deque_new single_seven
     = Inr \<lparr>numCells = 16, numBlocks = 0, numElements = 1, iaFront = 5, data = None\<rparr>"
  by (simp add: op_assign_def assign_loop.simps append_loop.simps begin_dq_def end_dq_def
      it_neq_def it_ref_def it_incr_def deque_new_def single_seven_def helper_defs access_defs)

lemma index_after_assign:
  "op_index \<lparr>numCells = 16, numBlocks = 0, numElements = 1, iaFront = 5,
             data = (None :: int ptr list option)\<rparr> 0 = Inl DivByZero"
  by (simp add: helper_defs access_defs)

lemma index_single_seven: "op_index single_seven 0 = Inr 7"
  by (simp add: single_seven_def helper_defs access_defs replicate_unfold)

lemma back_fresh: "back_dq (deque_new :: 'a deque) = Inl DivByZero"
  "back_h (deque_new :: 'a deque) = Inl NullDeref" "front (deque_new :: 'a deque) = Inl DivByZero"
  by (simp_all add: back_dq_def back_h_def front_def deque_new_def helper_defs access_defs
      ucast_minus_one)

lemma pop_back_fresh: "pop_back (deque_new :: 'a deque) = Inl AssertFailed"
  "pop_back_h (deque_new :: 'a deque) = Inl AssertFailed"
  "pop_front (deque_new :: 'a deque) = Inl AssertFailed"
  by (simp_all add: pop_back_def pop_back_h_def pop_front_def deque_new_def)

lemma clear_empty_one_block:
  "clear empty_one_block = Inr (empty_one_block\<lparr>data := Some [Null]\<rparr>)"
  by (simp add: clear_def empty_one_block_def for_int.simps null_block_def int_add_def access_defs)

lemma push_front_empty_one_block:
  "push_front int_of_int empty_one_block 3
     = Inr \<lparr>numCells = 16, numBlocks = 1, numElements = 1, iaFront = 15,
            data = Some [Block (replicate 15 None @ [Some 3])]\<rparr>"
  by (simp add: push_front_def empty_one_block_def step_front_down_def helper_defs access_defs
      replicate_unfold)

lemma push_front_after_clear:
  "push_front int_of_int (empty_one_block\<lparr>data := Some [Null]\<rparr>) 3 = Inl NullDeref"
  by (simp add: push_front_def empty_one_block_def step_front_down_def helper_defs access_defs)

lemma upt_cells: "[0 ..< 16] = [0, 1, 2, 3, 4, 5, 6, 7, 8, 9, 10, 11, 12, 13, 14, 15 :: nat]"
  by (simp add: upt_rec)

lemma copy_ctor_h_null_block:
  "copy_ctor_h (empty_one_block\<lparr>data := Some [Null]\<rparr>) = Inl NullDeref"
  by (simp add: copy_ctor_h_def copy_block_h_def empty_one_block_def upt_cells)

lemma copy_ctor_h_front_pair: "copy_ctor_h front_pair = Inl NoObject"
  by (simp add: copy_ctor_h_def copy_block_h_def front_pair_def replicate_unfold upt_cells)

lemma copy_ctor_h_full_block: "copy_ctor_h full_block = Inr full_block"
  by (simp add: copy_ctor_h_def copy_block_h_def full_block_def upt_cells)

lemma index_h_wrapped_front: "op_index_h wrapped_pair 0 = Inr 10"
  by (simp add: wrapped_pair_def helper_defs access_defs replicate_unfold)

lemma pop_back_wrapped_pair:
  "pop_back wrapped_pair
     = Inr \<lparr>numCells = 16, numBlocks = 2, numElements = 1, iaFront = 31,
            data = Some [Null, Block (replicate 15 None @ [Some 10])]\<rparr>"
  by (simp add: pop_back_def wrapped_pair_def destroy_at_def back_block_unused_def helper_defs
      access_defs replicate_unfold)

lemma index_after_pop_back:
  "op_index \<lparr>numCells = 16, numBlocks = 2, numElements = 1, iaFront = 31,
             data = Some [Null, Block (replicate 15 None @ [Some (10 :: int)])]\<rparr> 0 = Inr 10"
  by (simp add: helper_defs access_defs replicate_unfold)

lemma pop_back_h_wrapped_pair: "pop_back_h wrapped_pair = Inl OutOfBounds"
  by (simp add: pop_back_h_def wrapped_pair_def helper_defs access_defs)

lemma pop_back_front_pair:
  "pop_back front_pair
     = Inr \<lparr>numCells = 16, numBlocks = 1, numElements = 1, iaFront = 0,
            data = Some [Block (Some 10 # None # replicate 14 None)]\<rparr>"
  "pop_back_h front_pair
     = Inr \<lparr>numCells = 16, numBlocks = 1, numElements = 1, iaFront = 0,
            data = Some [Block (Some 10 # None # replicate 14 None)]\<rparr>"
  by (simp_all add: pop_back_def pop_back_h_def front_pair_def destroy_at_def
      back_block_unused_def helper_defs access_defs replicate_unfold)

lemma clear_front_pair:
  "clear front_pair
     = Inr \<lparr>numCells = 16, numBlocks = 1, numElements = 0, iaFront = 0, data = Some [Null]\<rparr>"
  by (simp add: clear_def front_pair_def for_int.simps destroy_at_def null_block_def helper_defs
      access_defs replicate_unfold)

subsection \<open>The concrete states are states of the data model\<close>

lemma upt_two: "{0 ..< (2::nat)} = {0, 1}"
  by auto

lemma layout_wrapped_pair: "layout_ok wrapped_pair"
  unfolding layout_ok_def
  by (simp add: total_cells_def front_offset_def abs_cell_def slot_at_def blocks_of_def block_ok_def
      wrapped_pair_def upt_two nth_append)

lemma layout_front_pair: "layout_ok front_pair"
  unfolding layout_ok_def
  by (simp add: total_cells_def front_offset_def abs_cell_def slot_at_def blocks_of_def block_ok_def
      front_pair_def upt_two)

lemma unwrapped_front_pair: "unwrapped front_pair"
  by (simp add: unwrapped_def total_cells_def front_offset_def front_pair_def)

lemma layout_empty_one_block: "layout_ok empty_one_block"
  unfolding layout_ok_def
  by (simp add: total_cells_def front_offset_def blocks_of_def block_ok_def empty_one_block_def)

lemma layout_deque_new: "layout_ok deque_new"
  unfolding layout_ok_def
  by (simp add: total_cells_def front_offset_def blocks_of_def deque_new_def)

lemma layout_single_seven: "layout_ok single_seven"
  unfolding layout_ok_def
  by (simp add: total_cells_def front_offset_def abs_cell_def slot_at_def blocks_of_def block_ok_def
      single_seven_def replicate_unfold)

lemma upt_sixteen:
  "{0 ..< (16::nat)} = {0, 1, 2, 3, 4, 5, 6, 7, 8, 9, 10, 11, 12, 13, 14, 15}"
  by (auto simp: atLeastLessThan_iff) arith

lemma layout_full_block: "layout_ok full_block"
  unfolding layout_ok_def
  by (simp add: total_cells_def front_offset_def abs_cell_def slot_at_def blocks_of_def block_ok_def
      full_block_def upt_sixteen)

subsection \<open>The states reachable through the public interface\<close>

lemma clear_fresh: "clear (deque_new :: 'a deque) = Inr deque_new"
  by (simp add: clear_def deque_new_def for_int_zero)

lemma op_assign_fresh_fresh: "op_assign (deque_new :: 'a deque) deque_new = Inr deque_new"
  by (simp add: op_assign_def assign_loop.simps append_loop.simps begin_dq_def end_dq_def
      it_neq_def deque_new_def)

lemma op_index_assign_fresh: "op_index_assign (deque_new :: 'a deque) ident v = Inl DivByZero"
proof -
  have "int_add 0 ident = Inr ident"
    using sint32_lt [of ident] sint32_ge [of ident] by (simp add: int_add_def)
  then show ?thesis
    by (simp add: op_index_assign_def ibFromID_def iaFromID_def deque_new_def)
qed

text \<open>
  Through the public interface the deque never leaves its initial state: \<^verbatim>\<open>push_back\<close>
  does nothing, the first \<^verbatim>\<open>push_front\<close> faults, and the other operations fail or
  change nothing on an empty deque without blocks. The states with elements that the
  properties of this theory range over are those that the unit tests set up through
  their friend access.
\<close>

lemma reachable_is_new: "reachable T_of_int s \<Longrightarrow> s = deque_new"
proof (induction rule: reachable.induct)
  case reach_new
  show ?case ..
next
  case (reach_push_back s t)
  then show ?case by (simp add: push_back_def)
next
  case (reach_push_front s t s')
  then show ?case by (simp add: push_front_fresh)
next
  case (reach_pop_front s s')
  then show ?case by (simp add: pop_back_fresh)
next
  case (reach_pop_back s s')
  then show ?case by (simp add: pop_back_fresh)
next
  case (reach_clear s s')
  then show ?case by (simp add: clear_fresh)
next
  case (reach_index_assign s ident v s')
  then show ?case by (simp add: op_index_assign_fresh)
next
  case (reach_assign lhs rhs lhs')
  then show ?case by (simp add: op_assign_fresh_fresh)
qed

lemma reachable_bound:
  "reachable T_of_int s \<Longrightarrow> unat (numElements s) \<le> total_cells s"
  by (drule reachable_is_new) (simp add: deque_new_def)

section \<open>The claims\<close>

subsection \<open>Claim C1: the index mapping\<close>

text \<open>
  The index translation of \<^verbatim>\<open>src/unnamed/part_000\<close> is the mapping of the
  specification: on a state of the data model, the helpers return the absolute cell
  \<open>(iaFront + i) mod (numBlocks * numCells)\<close>, its quotient and its remainder by
  \<open>numCells\<close>, and \<^verbatim>\<open>operator[]\<close>, \<^verbatim>\<open>front\<close> and \<^verbatim>\<open>back\<close> read the slot at that
  cell.
\<close>

lemma index_mapping:
  assumes l: "layout_ok s" and i: "i < unat (numElements s)"
  shows "iaFromID s (of_nat i) = Inr (of_nat (abs_cell s i))"
    and "ibFromID s (of_nat i) = Inr (of_nat (abs_cell s i div unat (numCells s)))"
    and "icFromID s (of_nat i) = Inr (of_nat (abs_cell s i mod unat (numCells s)))"
    and "\<exists>v. slot_at s (abs_cell s i) = Some v \<and> op_index s (of_nat i) = Inr v"
proof -
  have ne: "numElements s \<noteq> 0" using i by auto
  note g = layout_geom [OF l ne]
  note t = geom_total [OF g]
  have r: "front_offset s + i < 2147483648" using layout_bounds(3) [OF l] i by linarith
  show "iaFromID s (of_nat i) = Inr (of_nat (abs_cell s i))" by (rule iaFromID_nat [OF t r])
  show "ibFromID s (of_nat i) = Inr (of_nat (abs_cell s i div unat (numCells s)))"
    by (rule ibFromID_nat [OF t r])
  show "icFromID s (of_nat i) = Inr (of_nat (abs_cell s i mod unat (numCells s)))"
    by (rule icFromID_nat [OF t r])
  obtain v where v: "slot_at s (abs_cell s i) = Some v" using layout_live [OF l i] by auto
  then show "\<exists>v. slot_at s (abs_cell s i) = Some v \<and> op_index s (of_nat i) = Inr v"
    unfolding op_index_nat [OF g r] using read_abs_slot [OF v] by simp
qed

lemma front_back_mapping:
  assumes l: "layout_ok s" and ne: "numElements s \<noteq> 0"
  shows "front s = op_index s (of_nat 0)"
    and "back_dq s = op_index s (of_nat (unat (numElements s) - 1))"
proof -
  have n0: "0 < unat (numElements s)" using ne by (simp add: unat_gt_0)
  have n31: "unat (numElements s) < 2147483648" using layout_bounds [OF l] by linarith
  show "front s = op_index s (of_nat 0)" by (simp add: front_def)
  show "back_dq s = op_index s (of_nat (unat (numElements s) - 1))"
    unfolding back_dq_def ucast_numElements int_sub_one [OF n0 n31] sum.case ..
qed

text \<open>
  Claim C1, on \<^verbatim>\<open>src/deque.h\<close>. The claim gives the logical index 1 of the state
  \<open>wrapped_pair\<close> the absolute cell \<open>(31 + 1) mod 32 = 0\<close>, block 0, cell 0, where the
  element 20 is; \<open>ibFromID\<close> of \<^verbatim>\<open>src/deque.h\<close> returns block 2, outside the block
  array of two entries, and \<^verbatim>\<open>operator[]\<close> and \<^verbatim>\<open>back\<close> of \<^verbatim>\<open>src/deque.h\<close> read out
  of bounds. The helpers of \<^verbatim>\<open>src/unnamed/part_000\<close> return block 0, cell 0 on the same
  state, and its \<^verbatim>\<open>operator[]\<close> reads 20.
\<close>

theorem deque_h_index_wrapped:
  "abs_cell wrapped_pair 1 = 0 \<and>
   ibFromID_h wrapped_pair 1 = Inr 2 \<and> icFromID_h wrapped_pair 1 = Inr 0 \<and>
   op_index_h wrapped_pair 1 = Inl OutOfBounds \<and> back_h wrapped_pair = Inl OutOfBounds \<and>
   ibFromID wrapped_pair 1 = Inr 0 \<and> icFromID wrapped_pair 1 = Inr 0 \<and>
   op_index wrapped_pair 1 = Inr 20"
  using index_wrapped_pair index_h_wrapped_pair
  by (simp add: abs_cell_def front_offset_def total_cells_def wrapped_pair_def)

subsection \<open>Claim C2: \<^verbatim>\<open>push_front\<close>\<close>

text \<open>
  Claim C2, on the code. \<^verbatim>\<open>push_front\<close> on a freshly constructed deque calls
  \<^verbatim>\<open>reallocate(1)\<close>, which leaves the one block pointer null, and then writes through
  that null pointer; on a full deque of one block, the assertion of \<^verbatim>\<open>reallocate\<close>
  fails. The claim says that the value is prepended in both cases. Without growth, and
  when the block of the new front cell is allocated, \<^verbatim>\<open>push_front\<close> does what the claim
  says (lemma \<open>push_front_no_growth\<close>).
\<close>

theorem push_front_growth_faults:
  "push_front T_of_int (deque_new :: 'a deque) t = Inl NullDeref \<and>
   push_front int_of_int full_block 99 = Inl AssertFailed"
  using push_front_fresh [of T_of_int t] push_front_full by simp

subsection \<open>Claim C3: \<^verbatim>\<open>reallocate\<close>\<close>

text \<open>
  Claim C3, on the code. \<^verbatim>\<open>reallocate(3)\<close> on the state \<open>front_pair\<close> (two elements,
  \<open>2 < 3 * 16\<close>) returns a block array of three null pointers: the block that holds
  the elements 10 and 20 is not carried over, and logical index 0 no longer yields a
  value. On a full block, \<^verbatim>\<open>reallocate(2)\<close> fails its assertion although
  \<open>16 < 2 * 16\<close>. The loss is not particular to this state: on every state of the data
  model with another element count than one, a \<^verbatim>\<open>reallocate\<close> that returns leaves
  null block pointers only (lemma \<open>reallocate_all_null\<close>).
\<close>

theorem reallocate_drops_blocks:
  "op_index front_pair 0 = Inr 10 \<and>
   reallocate int_of_int front_pair 3
     = Inr \<lparr>numCells = 16, numBlocks = 3, numElements = 2, iaFront = 0,
            data = Some [Null, Null, Null]\<rparr> \<and>
   op_index \<lparr>numCells = 16, numBlocks = 3, numElements = 2, iaFront = 0,
             data = Some [Null, Null, Null :: int ptr]\<rparr> 0 = Inl NullDeref \<and>
   reallocate int_of_int full_block 2 = Inl AssertFailed"
  using index_front_pair(1) reallocate_front_pair index_after_reallocate reallocate_full by simp

subsection \<open>Claim C4: \<^verbatim>\<open>pop_front\<close>\<close>

text \<open>
  Claim C4, on the code. On the state \<open>wrapped_pair\<close>, with two blocks and the front
  at the last cell 31 of 32, \<^verbatim>\<open>pop_front\<close> stores the front offset 32 where the claim
  says \<open>(31 + 1) mod 32 = 0\<close>: the branch for more than one block increments without
  wrapping. On the state \<open>single_seven\<close>, with the front at cell 5, it stores the front
  offset 1 where the claim says 6: the offset is reset to 0 and then still incremented.
  The logical effect is the one of the claim on every non-empty state of the data
  model (lemma \<open>pop_front_nat\<close>): the first element is destroyed, the count is
  decremented and the old index \<open>i + 1\<close> is the new index \<open>i\<close>.
\<close>

theorem pop_front_offset_not_wrapped:
  "pop_front wrapped_pair
     = Inr \<lparr>numCells = 16, numBlocks = 2, numElements = 1, iaFront = 32,
            data = Some [Block (Some 20 # replicate 15 None), Block (replicate 16 None)]\<rparr> \<and>
   (front_offset wrapped_pair + 1) mod total_cells wrapped_pair = 0 \<and>
   pop_front single_seven
     = Inr \<lparr>numCells = 16, numBlocks = 1, numElements = 0, iaFront = 1, data = Some [Null]\<rparr> \<and>
   (front_offset single_seven + 1) mod total_cells single_seven = 6"
  using pop_front_wrapped_pair pop_front_single_seven
  by (simp add: front_offset_def total_cells_def wrapped_pair_def single_seven_def)

subsection \<open>Claim C5: copy construction and copy assignment\<close>

text \<open>
  Claim C5, on the code. Copy assignment of \<^verbatim>\<open>src/unnamed/part_000\<close> to a freshly
  constructed deque from the state \<open>single_seven\<close> copies no element (the elements
  beyond the size of the target go through \<^verbatim>\<open>push_back\<close>, whose body is empty) and
  then sets \<open>numElements\<close> to 1: the target reports one element and has no block, and
  its logical index 0 divides by zero where the source yields 7. Copy assignment of
  \<^verbatim>\<open>src/deque.h\<close> leaves the target unchanged. The copy constructor of
  \<^verbatim>\<open>src/deque.h\<close> reads through the null block pointer of a source with an unused
  block, and it reads every slot of every block, so it also stops at the first raw slot
  (lemmas \<open>copy_cells_h_raw\<close>, \<open>copy_ctor_h_front_pair\<close>); only on a source whose
  slots all hold an object does it yield an equal deque (lemma \<open>copy_ctor_h_full\<close>).
\<close>

theorem copy_assign_loses_elements:
  "op_index single_seven 0 = Inr 7 \<and>
   op_assign deque_new single_seven
     = Inr \<lparr>numCells = 16, numBlocks = 0, numElements = 1, iaFront = 5, data = None\<rparr> \<and>
   op_index \<lparr>numCells = 16, numBlocks = 0, numElements = 1, iaFront = 5,
             data = (None :: int ptr list option)\<rparr> 0 = Inl DivByZero \<and>
   size_dq (op_assign_h deque_new single_seven) = 0 \<and>
   copy_ctor_h (empty_one_block\<lparr>data := Some [Null]\<rparr>) = Inl NullDeref"
  using index_single_seven op_assign_fresh index_after_assign copy_ctor_h_null_block
  by (simp add: op_assign_h_def size_dq_def deque_new_def)

subsection \<open>Claim C6: round trips\<close>

text \<open>
  Claim C6, on the code. \<^verbatim>\<open>push_back\<close> has an empty body in both variants: after
  \<^verbatim>\<open>push_back(v)\<close> on a freshly constructed deque the size is still 0, \<^verbatim>\<open>back()\<close>
  divides by zero and \<^verbatim>\<open>pop_back()\<close> fails its assertion, where the claim reads
  \<open>v\<close> back. The first \<^verbatim>\<open>push_front\<close> on a freshly constructed deque writes through
  a null block pointer.
\<close>

theorem push_back_is_empty:
  "size_dq (push_back (deque_new :: 'a deque) v) = 0 \<and>
   back_dq (push_back (deque_new :: 'a deque) v) = Inl DivByZero \<and>
   pop_back (push_back (deque_new :: 'a deque) v) = Inl AssertFailed \<and>
   size_dq (push_back_h (deque_new :: 'a deque) v) = 0 \<and>
   pop_back_h (push_back_h (deque_new :: 'a deque) v) = Inl AssertFailed \<and>
   push_front T_of_int (deque_new :: 'a deque) v = Inl NullDeref"
  using back_fresh(1) [where 'a = 'a] pop_back_fresh(1,2) [where 'a = 'a]
    push_front_fresh [of T_of_int v]
  by (simp add: push_back_def push_back_h_def size_dq_def deque_new_def)

subsection \<open>Claim C7: iterators\<close>

text \<open>
  What the code does on every deque with fewer than \<open>2^31\<close> elements (the index of an
  iterator is an \<^verbatim>\<open>int\<close>): \<^verbatim>\<open>begin()\<close> has the index 0, \<^verbatim>\<open>end()\<close> the index
  \<open>numElements\<close>, \<^verbatim>\<open>end() - begin()\<close> equals \<^verbatim>\<open>size()\<close> (lemma
  \<open>end_minus_begin\<close>), and the traversal dereferences the indices
  \<open>0, 1, \<dots>, numElements - 1\<close> in this order through \<^verbatim>\<open>operator[]\<close> (lemma
  \<open>traverse_begin\<close>). With the helpers of \<^verbatim>\<open>src/unnamed/part_000\<close> the traversal of
  a state of the data model returns, and it returns the elements in logical order:
\<close>

lemma collect_map_Inr: "collect (map Inr vs) = Inr vs"
  by (induction vs) simp_all

lemma traverse_layout:
  assumes l: "layout_ok s"
  shows "traverse it_deref s (begin_dq s)
           = Inr (map (\<lambda>i. the (slot_at s (abs_cell s i))) [0 ..< unat (numElements s)])"
proof -
  have n: "unat (numElements s) < 2147483648" using layout_bounds [OF l] by linarith
  have "op_index s (of_nat i) = Inr (the (slot_at s (abs_cell s i)))"
    if "i < unat (numElements s)" for i
    using index_mapping(4) [OF l that] by auto
  then have "map (\<lambda>i. op_index s (of_nat i)) [0 ..< unat (numElements s)]
          = map Inr (map (\<lambda>i. the (slot_at s (abs_cell s i))) [0 ..< unat (numElements s)])"
    by simp
  then show ?thesis unfolding traverse_begin(1) [OF n] by (simp only: collect_map_Inr)
qed

text \<open>
  Claim C7, on \<^verbatim>\<open>src/deque.h\<close>. On the state \<open>wrapped_pair\<close>, of size 2,
  \<^verbatim>\<open>begin()\<close> has the index 0, \<^verbatim>\<open>end()\<close> the index 2 and their difference is 2,
  as the claim says. The traversal dereferences the element 10 at the index 0, and at the
  index 1 \<^verbatim>\<open>operator *\<close> calls \<^verbatim>\<open>operator[]\<close>, whose helper \<open>ibFromID\<close>
  returns block 2 of a block array of two entries: the traversal reads out of bounds
  after one element, where the claim visits the two elements 10 and 20. With the helpers
  of \<^verbatim>\<open>src/unnamed/part_000\<close> the same traversal visits 10 and 20.
\<close>

theorem iterator_traversal_h_faults:
  "size_dq wrapped_pair = 2 \<and>
   it_id (begin_dq wrapped_pair) = 0 \<and> it_id (end_dq wrapped_pair) = 2 \<and>
   it_minus (end_dq wrapped_pair) (begin_dq wrapped_pair) = Inr 2 \<and>
   it_deref_h wrapped_pair (begin_dq wrapped_pair) = Inr 10 \<and>
   it_incr (begin_dq wrapped_pair) = Inr \<lparr>it_id = 1\<rparr> \<and>
   it_deref_h wrapped_pair \<lparr>it_id = 1\<rparr> = Inl OutOfBounds \<and>
   traverse it_deref_h wrapped_pair (begin_dq wrapped_pair) = Inl OutOfBounds \<and>
   traverse it_deref wrapped_pair (begin_dq wrapped_pair) = Inr [10, 20]"
proof -
  have n: "unat (numElements wrapped_pair) = 2" by (simp add: wrapped_pair_def)
  have h: "unat (numElements wrapped_pair) < 2147483648" unfolding n by simp
  have u: "[0 ..< 2] = [0, Suc 0]" by (simp add: upt_conv_Cons)
  have t1: "traverse it_deref_h wrapped_pair (begin_dq wrapped_pair) = Inl OutOfBounds"
    unfolding traverse_begin(2) [OF h] n u
    by (simp add: index_h_wrapped_front index_h_wrapped_pair)
  have t2: "traverse it_deref wrapped_pair (begin_dq wrapped_pair) = Inr [10, 20]"
    unfolding traverse_begin(1) [OF h] n u by (simp add: index_wrapped_pair)
  have e: "it_id (end_dq wrapped_pair) = 2" "size_dq wrapped_pair = 2"
    by (simp_all add: end_dq_def size_dq_def wrapped_pair_def)
  have m: "it_minus (end_dq wrapped_pair) (begin_dq wrapped_pair) = Inr 2"
    by (simp add: it_minus_def end_dq_def begin_dq_def int_sub_def wrapped_pair_def)
  have d: "it_deref_h wrapped_pair (begin_dq wrapped_pair) = Inr 10"
    "it_deref_h wrapped_pair \<lparr>it_id = 1\<rparr> = Inl OutOfBounds"
    by (simp_all add: it_deref_h_def begin_dq_def index_h_wrapped_front index_h_wrapped_pair)
  have i: "it_incr (begin_dq wrapped_pair) = Inr \<lparr>it_id = 1\<rparr>"
    by (simp add: it_incr_def begin_dq_def int_add_def)
  show ?thesis using t1 t2 e m d i by (simp add: begin_dq_def)
qed

subsection \<open>Claim C8: \<^verbatim>\<open>pop_back\<close>\<close>

text \<open>
  What the code does: on every non-empty state of the data model, \<^verbatim>\<open>pop_back\<close> of
  \<^verbatim>\<open>src/unnamed/part_000\<close> returns, destroys the logical last element, decrements
  \<open>numElements\<close>, leaves \<open>iaFront\<close> unchanged, and every remaining logical index
  yields what it yielded before (lemma \<open>pop_back_frame_nat\<close>). \<^verbatim>\<open>pop_back\<close> of
  \<^verbatim>\<open>src/deque.h\<close> does the same on the states whose logical sequence does not wrap
  (lemma \<open>pop_back_h_frame_nat\<close>).

  Claim C8, on \<^verbatim>\<open>src/deque.h\<close>. On the non-empty state \<open>wrapped_pair\<close> the logical
  last element, 20, is in block 0, cell 0. \<^verbatim>\<open>pop_back\<close> of \<^verbatim>\<open>src/deque.h\<close>
  computes \<open>ibFromID(numElements - 1) = (31 + 1) / 16 = 2\<close> and destroys through
  \<^verbatim>\<open>data[2]\<close>, outside the block array of two entries, where the claim destroys the
  last element and decrements the count. \<^verbatim>\<open>pop_back\<close> of
  \<^verbatim>\<open>src/unnamed/part_000\<close> on the same state does what the claim says: the count
  becomes 1, the front offset stays 31 and the logical index 0 still yields 10.
\<close>

theorem pop_back_h_wrapped_faults:
  "numElements wrapped_pair \<noteq> 0 \<and> back_dq wrapped_pair = Inr 20 \<and>
   ibFromID_h wrapped_pair (ucast (numElements wrapped_pair - 1)) = Inr 2 \<and>
   pop_back_h wrapped_pair = Inl OutOfBounds \<and>
   pop_back wrapped_pair
     = Inr \<lparr>numCells = 16, numBlocks = 2, numElements = 1, iaFront = 31,
            data = Some [Null, Block (replicate 15 None @ [Some 10])]\<rparr> \<and>
   op_index \<lparr>numCells = 16, numBlocks = 2, numElements = 1, iaFront = 31,
             data = Some [Null, Block (replicate 15 None @ [Some (10 :: int)])]\<rparr> 0 = Inr 10"
proof -
  have a: "numElements wrapped_pair \<noteq> 0" by (simp add: wrapped_pair_def)
  have b: "back_dq wrapped_pair = Inr 20"
    using index_wrapped_pair(2) by (simp add: back_dq_def int_sub_def wrapped_pair_def)
  have c: "ucast (numElements wrapped_pair - 1) = (1 :: cint)" by (simp add: wrapped_pair_def)
  show ?thesis
    unfolding c
    using a b index_h_wrapped_pair(1) pop_back_h_wrapped_pair pop_back_wrapped_pair
      index_after_pop_back
    by simp
qed

subsection \<open>Claim C9: \<^verbatim>\<open>clear\<close>\<close>

text \<open>
  What the code does: on every state of the data model \<^verbatim>\<open>clear()\<close> returns with
  \<open>numElements = 0\<close>, with \<open>numCells\<close>, \<open>numBlocks\<close> and \<open>iaFront\<close> unchanged, and
  with every block pointer set to null (lemma \<open>clear_nat\<close>). The loop under the comment
  \<^verbatim>\<open>// Delete the blocks themselves\<close> releases no block and does not reset
  \<open>numBlocks\<close>: the deque keeps a block array of null pointers that counts as capacity.

  Claim C9, on the code. \<^verbatim>\<open>clear()\<close> on the empty state \<open>empty_one_block\<close>, whose
  one block is allocated, sets the block pointer to null: the call is not a no-op. The
  operations that follow do not behave as on an empty deque either: \<^verbatim>\<open>push_front(3)\<close>
  returns on the empty deque before \<^verbatim>\<open>clear()\<close>, and after \<^verbatim>\<open>clear()\<close> it skips
  the growth (\<open>0 \<noteq> 1 * 16\<close>) and writes through the null block pointer.
\<close>

theorem clear_empty_changes_state:
  "empty_dq empty_one_block \<and>
   clear empty_one_block = Inr (empty_one_block\<lparr>data := Some [Null]\<rparr>) \<and>
   empty_one_block\<lparr>data := Some [Null]\<rparr> \<noteq> empty_one_block \<and>
   push_front int_of_int empty_one_block 3
     = Inr \<lparr>numCells = 16, numBlocks = 1, numElements = 1, iaFront = 15,
            data = Some [Block (replicate 15 None @ [Some 3])]\<rparr> \<and>
   push_front int_of_int (empty_one_block\<lparr>data := Some [Null]\<rparr>) 3 = Inl NullDeref"
  using clear_empty_one_block push_front_empty_one_block push_front_after_clear
  by (simp add: empty_dq_def empty_one_block_def)

subsection \<open>Claim C10: the two variants of the helpers\<close>

text \<open>
  Claim C10. For every deque state with \<open>numBlocks > 0\<close> whose total cell count
  \<open>numBlocks * numCells\<close> is representable in \<^verbatim>\<open>size_t\<close>, and every index with
  \<open>0 \<le> iaFront + id < numBlocks * numCells\<close> (the access does not wrap past the end of
  the block array), \<open>ibFromID\<close> and \<open>icFromID\<close> of \<^verbatim>\<open>src/deque.h\<close> return what
  \<open>ibFromID\<close> and \<open>icFromID\<close> of \<^verbatim>\<open>src/unnamed/part_000\<close> return.
\<close>

theorem index_helpers_agree:
  fixes ident :: cint
  assumes "0 < unat (numBlocks s)"
    and "0 \<le> sint (iaFront s) + sint ident"
    and "sint (iaFront s) + sint ident < int (unat (numBlocks s) * unat (numCells s))"
    and "unat (numBlocks s) * unat (numCells s) < 2 ^ 64"
  shows "ibFromID s ident = ibFromID_h s ident \<and> icFromID s ident = icFromID_h s ident"
  using assms by (rule helpers_agree_nat)

theorem index_helpers_agree_witness:
  "0 < unat (numBlocks wrapped_pair) \<and>
   0 \<le> sint (iaFront wrapped_pair) + sint (0 :: cint) \<and>
   sint (iaFront wrapped_pair) + sint (0 :: cint)
     < int (unat (numBlocks wrapped_pair) * unat (numCells wrapped_pair)) \<and>
   unat (numBlocks wrapped_pair) * unat (numCells wrapped_pair) < 2 ^ 64 \<and>
   ibFromID wrapped_pair 0 = ibFromID_h wrapped_pair 0 \<and>
   icFromID wrapped_pair 0 = icFromID_h wrapped_pair 0 \<and>
   ibFromID_h wrapped_pair 0 = Inr 1 \<and> icFromID_h wrapped_pair 0 = Inr 15"
proof -
  have h: "0 < unat (numBlocks wrapped_pair)"
    "0 \<le> sint (iaFront wrapped_pair) + sint (0 :: cint)"
    "sint (iaFront wrapped_pair) + sint (0 :: cint)
       < int (unat (numBlocks wrapped_pair) * unat (numCells wrapped_pair))"
    "unat (numBlocks wrapped_pair) * unat (numCells wrapped_pair) < 2 ^ 64"
    by (simp_all add: wrapped_pair_def)
  have v: "ibFromID_h wrapped_pair 0 = Inr 1" "icFromID_h wrapped_pair 0 = Inr 15"
    by (simp_all add: ibFromID_h_def icFromID_h_def int_add_def wrapped_pair_def)
  show ?thesis using index_helpers_agree [OF h] h v by simp
qed

end
